(* ===== verification/Prelude.thy ===== *)
theory Prelude
  imports Main "HOL-Library.Word"
begin

text \<open>
  Prelude of the MemSync development: the machine integer types of the C++ code on its
  platform (LP64, two's complement), the collections of facts the components share, and
  generic lemmas on words, list update and counting that are not about the program.
\<close>

section \<open>Machine integers\<close>

type_synonym u8 = "8 word"
type_synonym u32 = "32 word"
type_synonym u64 = "64 word"

text \<open>
  \<open>int32_t\<close> is a 32-bit word read in two's complement: a comparison with zero is a
  comparison of \<open>sint\<close>, and the literal \<open>-1\<close> is the word \<open>-1\<close>.
\<close>

type_synonym i32 = "32 word"

text \<open>The newline of an output text.\<close>

abbreviation NL :: string where
  "NL \<equiv> [CHR 0x0A]"

text \<open>
  \<open>engine_defs\<close> collects the definitions of one-line source functions, \<open>wf_intros\<close> the
  preservation lemmas of the table invariant, \<open>frame_simps\<close> the facts that an operation
  leaves a part of the state alone.
\<close>

named_theorems engine_defs "definitions of one-line source functions"
named_theorems wf_intros "preservation of the table invariant"
named_theorems frame_simps "parts of the state an operation leaves alone"

section \<open>Words\<close>

lemma unat_succ_less:
  fixes i n :: "'a::len word"
  assumes "i < n"
  shows "unat (i + 1) = Suc (unat i)"
proof -
  from assms have "i \<noteq> - 1" by (metis word_not_simps(3))
  then have "i + 1 \<noteq> 0" by (metis add_eq_0_iff2)
  then show ?thesis by (metis add.commute unatSuc)
qed

lemma succ_le_of_less:
  fixes i n :: "'a::len word"
  assumes "i < n"
  shows "i + 1 \<le> n"
  using assms unat_succ_less[OF assms] by (simp add: word_le_nat_alt word_less_nat_alt)

lemma unat_add_small:
  fixes a b :: "'a::len word"
  assumes "unat a + unat b < 2 ^ LENGTH('a)"
  shows "unat (a + b) = unat a + unat b"
  using assms by (simp add: unat_word_ariths)

lemma unat_mod_eq: "unat (a mod b) = unat a mod unat b"
  for a b :: "'a::len word"
  by (fact unat_mod)

lemma sint_u32_small:
  assumes "unat (x :: u32) < 2 ^ 31"
  shows "sint x = int (unat x)"
proof -
  have e: "uint x = int (unat x)" by simp
  from assms have "int (unat x) < int (2 ^ 31)" by (simp only: of_nat_less_iff)
  then have "uint x < 2 ^ 31" by (simp only: e of_nat_power of_nat_numeral)
  moreover have "- (2 ^ 31) \<le> uint x" by (rule order_trans[of _ 0]) simp_all
  ultimately have "signed_take_bit (LENGTH(32) - Suc 0) (uint x) = uint x"
    by (intro iffD2[OF signed_take_bit_int_eq_self_iff]) simp
  then show ?thesis by (simp only: sint_uint e)
qed

lemma sint_minus_one_neg [simp]: "sint (- 1 :: u32) < 0"
  by simp

lemma small_not_minus_one: "unat (x :: u32) < 2 ^ 31 \<Longrightarrow> x \<noteq> - 1"
proof -
  assume "unat x < 2 ^ 31"
  then have "0 \<le> sint x" by (simp add: sint_u32_small)
  then show ?thesis by auto
qed

lemma u32_bound: "unat (x :: u32) < 4294967296"
proof -
  have "unat x < 2 ^ LENGTH(32)" by (rule unsigned_less)
  also have "(2 :: nat) ^ LENGTH(32) = 4294967296" by simp
  finally show ?thesis .
qed

lemma u64_bound: "unat (x :: u64) < 18446744073709551616"
proof -
  have "unat x < 2 ^ LENGTH(64)" by (rule unsigned_less)
  also have "(2 :: nat) ^ LENGTH(64) = 18446744073709551616" by simp
  finally show ?thesis .
qed

lemma unat_ucast_u64 [simp]: "unat (ucast (x :: u32) :: u64) = unat x"
  by (simp add: unsigned_ucast_eq take_bit_nat_eq_self_iff order.strict_trans[OF u32_bound])

section \<open>Counting in lists\<close>

definition count_if :: "('a \<Rightarrow> bool) \<Rightarrow> 'a list \<Rightarrow> nat" where
  "count_if P xs = length (filter P xs)"

lemma count_if_le [simp]: "count_if P xs \<le> length xs"
  by (simp add: count_if_def)

lemma count_if_update:
  "p < length xs \<Longrightarrow>
   count_if P (xs[p := x]) + (if P (xs ! p) then 1 else 0)
     = count_if P xs + (if P x then 1 else 0)"
proof (induction xs arbitrary: p)
  case Nil
  then show ?case by simp
next
  case (Cons y ys)
  show ?case
  proof (cases p)
    case 0
    then show ?thesis by (simp add: count_if_def)
  next
    case (Suc q)
    with Cons show ?thesis by (fastforce simp: count_if_def)
  qed
qed

lemma count_if_pos: "p < length xs \<Longrightarrow> P (xs ! p) \<Longrightarrow> 0 < count_if P xs"
  by (metis count_if_def filter_empty_conv length_greater_0_conv nth_mem)

lemma count_if_less: "p < length xs \<Longrightarrow> \<not> P (xs ! p) \<Longrightarrow> count_if P xs < length xs"
  unfolding count_if_def by (metis length_filter_less nth_mem)

lemma count_if_full: "count_if P xs = length xs \<longleftrightarrow> (\<forall>p<length xs. P (xs ! p))"
  by (metis count_if_def count_if_less filter_True in_set_conv_nth nat_less_le)

lemma count_if_zero: "count_if P xs = 0 \<longleftrightarrow> (\<forall>p<length xs. \<not> P (xs ! p))"
  by (auto simp: count_if_def filter_empty_conv all_set_conv_all_nth)

lemma count_if_replicate [simp]: "count_if P (replicate n x) = (if P x then n else 0)"
  by (simp add: count_if_def)

section \<open>Cyclic positions\<close>

text \<open>
  Linear probing visits \<open>(home + j) mod n\<close> for \<open>j = 0, 1, \<dots>, n - 1\<close>.  \<open>ring_dist\<close> is the
  number of the visit that reaches a given position.
\<close>

definition ring_pos :: "nat \<Rightarrow> nat \<Rightarrow> nat \<Rightarrow> nat" where
  "ring_pos n home j = (home + j) mod n"

definition ring_dist :: "nat \<Rightarrow> nat \<Rightarrow> nat \<Rightarrow> nat" where
  "ring_dist n home p = (p + n - home) mod n"

lemma ring_pos_less [simp]: "0 < n \<Longrightarrow> ring_pos n home j < n"
  by (simp add: ring_pos_def)

lemma ring_dist_less [simp]: "0 < n \<Longrightarrow> ring_dist n home p < n"
  by (simp add: ring_dist_def)

lemma ring_pos_dist:
  assumes "home < n" "p < n"
  shows "ring_pos n home (ring_dist n home p) = p"
proof -
  have "(home + (p + n - home) mod n) mod n = (home + (p + n - home)) mod n"
    by (simp add: mod_add_right_eq)
  also have "\<dots> = p" using assms by simp
  finally show ?thesis by (simp add: ring_pos_def ring_dist_def)
qed

lemma ring_dist_pos:
  assumes "home < n" "j < n"
  shows "ring_dist n home (ring_pos n home j) = j"
proof (cases "home + j < n")
  case True
  with assms show ?thesis by (simp add: ring_dist_def ring_pos_def)
next
  case False
  with assms have m: "(home + j) mod n = home + j - n"
    by (simp add: mod_if)
  from False assms have "home + j - n + n - home = j" by simp
  with assms m show ?thesis by (simp add: ring_dist_def ring_pos_def)
qed

lemma ring_pos_inj:
  "home < n \<Longrightarrow> i < n \<Longrightarrow> j < n \<Longrightarrow> ring_pos n home i = ring_pos n home j \<Longrightarrow> i = j"
  by (metis ring_dist_pos)

end
