(* ===== verification/CString.thy ===== *)
theory CString
  imports Prelude
begin

text \<open>
  The C string functions the engine calls, on character arrays.  An array is the list of its
  bytes; a \<open>const char*\<close> argument is \<open>None\<close> for \<open>nullptr\<close> and otherwise the list of the
  bytes it points at, where the end of the list reads as the terminator.  The content of an
  array is \<open>cstr\<close>: the bytes before the first NUL.
\<close>

abbreviation NUL :: char where
  "NUL \<equiv> CHR 0x00"

definition cstr :: "char list \<Rightarrow> string" where
  "cstr b = takeWhile (\<lambda>c. c \<noteq> NUL) b"

definition char_at :: "char list \<Rightarrow> nat \<Rightarrow> char" where
  "char_at b i = (if i < length b then b ! i else NUL)"

definition strlen :: "char list \<Rightarrow> nat" where
  "strlen b = length (cstr b)"

text \<open>\<open>std::strcmp(a, b) == 0\<close>, the only way the engine uses \<open>strcmp\<close>.\<close>

definition strcmp_eq :: "char list \<Rightarrow> char list \<Rightarrow> bool" where
  "strcmp_eq a b \<longleftrightarrow> cstr a = cstr b"

text \<open>
  \<open>std::strncpy(dst, src, n)\<close> writes exactly \<open>n\<close> bytes: the content of \<open>src\<close>, cut at \<open>n\<close>
  bytes, and NUL bytes after it.  The bytes of \<open>dst\<close> from \<open>n\<close> on are kept.
\<close>

definition strncpy :: "char list \<Rightarrow> char list \<Rightarrow> nat \<Rightarrow> char list" where
  "strncpy dst src n = take n (cstr src @ replicate n NUL) @ drop n dst"

text \<open>The engine's copy idiom: \<open>strncpy(dst, src, n - 1); dst[n - 1] = '\0';\<close>\<close>

definition copy_terminated :: "char list \<Rightarrow> char list \<Rightarrow> nat \<Rightarrow> char list" where
  "copy_terminated dst src n = (strncpy dst src (n - 1))[n - 1 := NUL]"

definition terminated :: "char list \<Rightarrow> bool" where
  "terminated b \<longleftrightarrow> NUL \<in> set b"

section \<open>Lemmas\<close>

lemma NUL_notin_cstr [simp]: "NUL \<notin> set (cstr b)"
  by (auto simp: cstr_def dest: set_takeWhileD)

lemma cstr_no_NUL [simp]: "NUL \<notin> set s \<Longrightarrow> cstr s = s"
  by (auto simp: cstr_def takeWhile_eq_all_conv)

lemma cstr_idem [simp]: "cstr (cstr b) = cstr b"
  by simp

lemma cstr_Nil [simp]: "cstr [] = []"
  by (simp add: cstr_def)

lemma cstr_append_NUL [simp]: "NUL \<notin> set s \<Longrightarrow> cstr (s @ NUL # t) = s"
  by (simp add: cstr_def takeWhile_append)

lemma cstr_Cons: "cstr (c # b) = (if c = NUL then [] else c # cstr b)"
  by (simp add: cstr_def)

lemma cstr_empty_iff: "cstr b = [] \<longleftrightarrow> char_at b 0 = NUL"
  by (cases b) (auto simp: cstr_Cons char_at_def)

lemma cstr_clear_first [simp]: "b \<noteq> [] \<Longrightarrow> cstr (b[0 := NUL]) = []"
  by (cases b) (auto simp: cstr_Cons)

lemma length_strncpy: "n \<le> length dst \<Longrightarrow> length (strncpy dst src n) = length dst"
  by (simp add: strncpy_def)

lemma length_copy_terminated [simp]:
  "n - 1 \<le> length dst \<Longrightarrow> length (copy_terminated dst src n) = length dst"
  by (simp add: copy_terminated_def length_strncpy)

text \<open>The copy idiom stores the content cut at \<open>n - 1\<close> bytes, whatever was in the array.\<close>

lemma cstr_take: "cstr (take m b) = take m (cstr b)"
  by (induction b arbitrary: m) (auto simp: cstr_Cons take_Cons split: nat.splits)

lemma cstr_append: "cstr (a @ b) = (if terminated a then cstr a else a @ cstr b)"
  by (induction a) (auto simp: cstr_Cons terminated_def)

lemma terminated_take_pad:
  "terminated (take m (s @ replicate m NUL)) \<or> m \<le> length s"
  by (auto simp: terminated_def not_le)

lemma copy_terminated_eq:
  assumes "0 < n" "n \<le> length dst"
  shows "copy_terminated dst src n
           = take (n - 1) (cstr src @ replicate (n - 1) NUL) @ NUL # drop n dst"
proof -
  obtain m where n: "n = Suc m" using assms by (cases n) auto
  from assms n have d: "drop m dst = dst ! m # drop n dst"
    by (simp add: Cons_nth_drop_Suc)
  show ?thesis
    using assms by (simp add: copy_terminated_def strncpy_def n d list_update_append min_def)
qed

lemma cstr_copy_terminated:
  assumes "0 < n" "n \<le> length dst"
  shows "cstr (copy_terminated dst src n) = take (n - 1) (cstr src)"
proof -
  have "cstr (take (n - 1) (cstr src @ replicate (n - 1) NUL) @ NUL # drop n dst)
          = cstr (take (n - 1) (cstr src @ replicate (n - 1) NUL))"
    by (auto simp: cstr_append cstr_Cons terminated_def)
  also have "\<dots> = take (n - 1) (cstr src)"
    by (cases "n - 1") (simp_all add: cstr_take cstr_append terminated_def cstr_Cons)
  finally show ?thesis by (simp add: copy_terminated_eq[OF assms])
qed

lemma cstr_copy_terminated_fits [simp]:
  assumes "strlen src < n" "n \<le> length dst"
  shows "cstr (copy_terminated dst src n) = cstr src"
proof -
  from assms have "0 < n" by auto
  with assms show ?thesis by (simp add: cstr_copy_terminated strlen_def)
qed

lemma terminated_copy_terminated [simp]:
  "0 < n \<Longrightarrow> n \<le> length dst \<Longrightarrow> terminated (copy_terminated dst src n)"
  by (simp add: copy_terminated_eq terminated_def)

lemma strlen_terminated: "terminated b \<Longrightarrow> strlen b < length b"
  unfolding strlen_def cstr_def terminated_def
  by (induction b) auto

end
