(* ===== verification/Layout.thy ===== *)
theory Layout
  imports CString
begin

text \<open>
  The memory layout of the shared structures of \<open>include/cache_engine.h\<close>, computed by the
  rule of the platform's ABI (System V x86-64): a member starts at the next multiple of its
  alignment, and a structure is padded to a multiple of its largest alignment.  A structure is
  the list of the sizes and alignments of its members, in the order of the declaration.
\<close>

section \<open>Constants of the header file\<close>

definition CACHE_MAGIC :: u32 where "CACHE_MAGIC = 0xDEADBEEF"
definition CACHE_VERSION :: u32 where "CACHE_VERSION = 1"
definition MAX_KEY_LEN :: nat where "MAX_KEY_LEN = 64"
definition MAX_VAL_LEN :: nat where "MAX_VAL_LEN = 256"
definition CACHE_SHARED_MEMORY_SIZE :: u64 where
  "CACHE_SHARED_MEMORY_SIZE = 4 * 1024 * 1024"
definition CACHE_DEFAULT_CAPACITY :: u32 where "CACHE_DEFAULT_CAPACITY = 1000"

section \<open>Structure layout\<close>

definition align_up :: "nat \<Rightarrow> nat \<Rightarrow> nat" where
  "align_up n a = (n + (a - 1)) div a * a"

fun field_offsets :: "nat \<Rightarrow> (nat \<times> nat) list \<Rightarrow> nat list" where
  "field_offsets n [] = []"
| "field_offsets n ((sz, al) # fs) =
     (let off = align_up n al in off # field_offsets (off + sz) fs)"

fun fields_end :: "nat \<Rightarrow> (nat \<times> nat) list \<Rightarrow> nat" where
  "fields_end n [] = n"
| "fields_end n ((sz, al) # fs) = fields_end (align_up n al + sz) fs"

definition struct_align :: "(nat \<times> nat) list \<Rightarrow> nat" where
  "struct_align fs = foldr (\<lambda>f. max (snd f)) fs 1"

definition struct_size :: "(nat \<times> nat) list \<Rightarrow> nat" where
  "struct_size fs = align_up (fields_end 0 fs) (struct_align fs)"

text \<open>
  \<open>pthread_rwlock_t\<close> is an opaque type of the C library; on glibc for x86-64 it has 56 bytes
  and the alignment of a pointer.
\<close>

definition sizeof_pthread_rwlock_t :: nat where "sizeof_pthread_rwlock_t = 56"
definition alignof_pthread_rwlock_t :: nat where "alignof_pthread_rwlock_t = 8"

text \<open>
  \<open>CacheHeader\<close>: magic, version, capacity, entry count, data offset, three counters, lock.
  \<open>CacheEntry\<close>: state byte, key array, value array, timestamp, time to live.
\<close>

definition CacheHeader_fields :: "(nat \<times> nat) list" where
  "CacheHeader_fields =
     [(4, 4), (4, 4), (4, 4), (4, 4), (4, 4), (8, 8), (8, 8), (8, 8),
      (sizeof_pthread_rwlock_t, alignof_pthread_rwlock_t)]"

definition CacheEntry_fields :: "(nat \<times> nat) list" where
  "CacheEntry_fields = [(1, 1), (MAX_KEY_LEN, 1), (MAX_VAL_LEN, 1), (8, 8), (4, 4)]"

definition sizeof_CacheHeader :: nat where
  "sizeof_CacheHeader = struct_size CacheHeader_fields"

definition sizeof_CacheEntry :: nat where
  "sizeof_CacheEntry = struct_size CacheEntry_fields"

lemma sizeof_CacheHeader_eq [simp]: "sizeof_CacheHeader = 104"
  by (simp add: sizeof_CacheHeader_def struct_size_def CacheHeader_fields_def align_up_def
      struct_align_def sizeof_pthread_rwlock_t_def alignof_pthread_rwlock_t_def)

lemma sizeof_CacheEntry_eq [simp]: "sizeof_CacheEntry = 344"
  by (simp add: sizeof_CacheEntry_def struct_size_def CacheEntry_fields_def align_up_def
      struct_align_def MAX_KEY_LEN_def MAX_VAL_LEN_def)

lemma CacheEntry_offsets: "field_offsets 0 CacheEntry_fields = [0, 1, 65, 328, 336]"
  by (simp add: CacheEntry_fields_def align_up_def MAX_KEY_LEN_def MAX_VAL_LEN_def)

lemma CacheHeader_offsets:
  "field_offsets 0 CacheHeader_fields = [0, 4, 8, 12, 16, 24, 32, 40, 48]"
  by (simp add: CacheHeader_fields_def align_up_def sizeof_pthread_rwlock_t_def
      alignof_pthread_rwlock_t_def)

section \<open>Lemmas on the layout rule\<close>

lemma align_up_ge: "0 < a \<Longrightarrow> n \<le> align_up n a"
proof -
  assume a: "0 < a"
  let ?m = "n + (a - 1)"
  have "?m = ?m div a * a + ?m mod a" by (simp only: div_mult_mod_eq)
  moreover from a have "?m mod a < a" by (rule mod_less_divisor)
  ultimately have "n < ?m div a * a + 1" using a by linarith
  then show ?thesis by (simp add: align_up_def)
qed

lemma align_up_dvd [simp]: "a dvd align_up n a"
  by (simp add: align_up_def)

end
