(* ===== verification/Probing.thy ===== *)
theory Probing
  imports Prelude
begin

text \<open>
  Linear probing over an abstract table of \<open>n\<close> slots.  A slot is free (never used), a
  tombstone, or holds a key.  \<open>scan\<close> is the search every loop of the engine performs, on the
  sequence of the slots it visits; \<open>probe_ok\<close> is the invariant that makes the search find
  every key, and the lemmas say which slot writes keep it.  The locale \<open>hashed_slots\<close> is the
  interface between a table of this kind and the operations that search it.
\<close>

datatype 'k slot_view = Free | Tomb | Held 'k

datatype scan_result = Found nat | Stopped nat | Exhausted

section \<open>The search\<close>

text \<open>Visit \<open>i, i + 1, \<dots>, n - 1\<close>: stop at a free slot, succeed at the key, else go on.\<close>

function scan :: "(nat \<Rightarrow> 'k slot_view) \<Rightarrow> 'k \<Rightarrow> nat \<Rightarrow> nat \<Rightarrow> scan_result" where
  "scan f k i n =
     (if i < n
      then if f i = Free then Stopped i
           else if f i = Held k then Found i
           else scan f k (Suc i) n
      else Exhausted)"
  by pat_completeness auto
termination
  by (relation "measure (\<lambda>(f, k, i, n). n - i)") auto

declare scan.simps [simp del]

lemma scan_step:
  "i < n \<Longrightarrow> scan f k i n =
     (if f i = Free then Stopped i else if f i = Held k then Found i else scan f k (Suc i) n)"
  by (subst scan.simps) simp

lemma scan_end [simp]: "\<not> i < n \<Longrightarrow> scan f k i n = Exhausted"
  by (subst scan.simps) simp

text \<open>What the result says about the visited slots.\<close>

definition passed :: "(nat \<Rightarrow> 'k slot_view) \<Rightarrow> 'k \<Rightarrow> nat \<Rightarrow> nat \<Rightarrow> bool" where
  "passed f k i j \<longleftrightarrow> (\<forall>m. i \<le> m \<and> m < j \<longrightarrow> f m \<noteq> Free \<and> f m \<noteq> Held k)"

lemma passed_empty [simp]: "\<not> i < j \<Longrightarrow> passed f k i j"
  by (auto simp: passed_def)

lemma passed_extend:
  "passed f k i j \<Longrightarrow> f j \<noteq> Free \<Longrightarrow> f j \<noteq> Held k \<Longrightarrow> passed f k i (Suc j)"
  by (auto simp: passed_def less_Suc_eq)

lemma passed_Cons:
  "f i \<noteq> Free \<Longrightarrow> f i \<noteq> Held k \<Longrightarrow> passed f k (Suc i) j \<Longrightarrow> passed f k i j"
  by (auto simp: passed_def) (metis Suc_leI le_neq_implies_less)+

lemma scan_cases:
  assumes "i \<le> n"
  shows "case scan f k i n of
           Found j \<Rightarrow> i \<le> j \<and> j < n \<and> f j = Held k \<and> passed f k i j
         | Stopped j \<Rightarrow> i \<le> j \<and> j < n \<and> f j = Free \<and> passed f k i j
         | Exhausted \<Rightarrow> passed f k i n"
  using assms
proof (induction f k i n rule: scan.induct)
  case (1 f k i n)
  show ?case
  proof (cases "i < n \<and> f i \<noteq> Free \<and> f i \<noteq> Held k")
    case True
    with 1 have "case scan f k (Suc i) n of
           Found j \<Rightarrow> Suc i \<le> j \<and> j < n \<and> f j = Held k \<and> passed f k (Suc i) j
         | Stopped j \<Rightarrow> Suc i \<le> j \<and> j < n \<and> f j = Free \<and> passed f k (Suc i) j
         | Exhausted \<Rightarrow> passed f k (Suc i) n"
      by simp
    with True show ?thesis
      by (auto simp: scan_step split: scan_result.splits intro: passed_Cons)
  next
    case False
    with 1 show ?thesis
      by (cases "i < n") (auto simp: scan_step)
  qed
qed

lemma scan_FoundD:
  "scan f k 0 n = Found j \<Longrightarrow> j < n \<and> f j = Held k \<and> passed f k 0 j"
  using scan_cases[of 0 n f k] by simp

lemma scan_StoppedD:
  "scan f k 0 n = Stopped j \<Longrightarrow> j < n \<and> f j = Free \<and> passed f k 0 j"
  using scan_cases[of 0 n f k] by simp

lemma scan_ExhaustedD: "scan f k 0 n = Exhausted \<Longrightarrow> passed f k 0 n"
  using scan_cases[of 0 n f k] by simp

lemma scan_skip:
  "i \<le> j \<Longrightarrow> j \<le> n \<Longrightarrow> passed f k i j \<Longrightarrow> scan f k i n = scan f k j n"
proof (induction "j - i" arbitrary: i)
  case 0
  then show ?case by simp
next
  case (Suc d)
  then have i: "i < j" by simp
  with Suc have "f i \<noteq> Free" "f i \<noteq> Held k" "passed f k (Suc i) j"
    by (auto simp: passed_def)
  with Suc i show ?case
    by (simp add: scan_step)
qed

lemma scan_FoundI:
  assumes "j < n" "f j = Held k" "\<And>m. m < j \<Longrightarrow> f m \<noteq> Free \<and> f m \<noteq> Held k"
  shows "scan f k 0 n = Found j"
proof -
  have "scan f k 0 n = scan f k j n"
    using assms by (intro scan_skip) (auto simp: passed_def)
  with assms show ?thesis by (simp add: scan_step)
qed

section \<open>The invariant of a probed table\<close>

text \<open>
  No key is held twice, and no free slot lies between a key's home and the slot that holds it.
\<close>

definition probe_ok :: "nat \<Rightarrow> ('k \<Rightarrow> nat) \<Rightarrow> (nat \<Rightarrow> 'k slot_view) \<Rightarrow> bool" where
  "probe_ok n home view \<longleftrightarrow>
     (\<forall>p<n. case view p of
        Held k \<Rightarrow> (\<forall>q<n. view q = Held k \<longrightarrow> q = p) \<and>
                  (\<forall>j<ring_dist n (home k) p. view (ring_pos n (home k) j) \<noteq> Free)
      | _ \<Rightarrow> True)"

lemma probe_okD:
  assumes "probe_ok n home view" "p < n" "view p = Held k"
  shows "(\<forall>q<n. view q = Held k \<longrightarrow> q = p) \<and>
         (\<forall>j<ring_dist n (home k) p. view (ring_pos n (home k) j) \<noteq> Free)"
  using assms(1)[unfolded probe_ok_def, rule_format, OF assms(2)] assms(3) by simp

lemma probe_ok_unique:
  "probe_ok n home view \<Longrightarrow> p < n \<Longrightarrow> q < n \<Longrightarrow> view p = Held k \<Longrightarrow> view q = Held k \<Longrightarrow> p = q"
  by (drule (2) probe_okD) simp

lemma probe_ok_chain:
  "probe_ok n home view \<Longrightarrow> p < n \<Longrightarrow> view p = Held k \<Longrightarrow> j < ring_dist n (home k) p
     \<Longrightarrow> view (ring_pos n (home k) j) \<noteq> Free"
  using probe_okD[of n home view p k] by blast

lemma probe_okI:
  assumes "\<And>p q k. p < n \<Longrightarrow> q < n \<Longrightarrow> view p = Held k \<Longrightarrow> view q = Held k \<Longrightarrow> q = p"
    and "\<And>p k j. p < n \<Longrightarrow> view p = Held k \<Longrightarrow> j < ring_dist n (home k) p
           \<Longrightarrow> view (ring_pos n (home k) j) \<noteq> Free"
  shows "probe_ok n home view"
proof -
  have "case view p of
        Held k \<Rightarrow> (\<forall>q<n. view q = Held k \<longrightarrow> q = p) \<and>
                  (\<forall>j<ring_dist n (home k) p. view (ring_pos n (home k) j) \<noteq> Free)
      | _ \<Rightarrow> True" if "p < n" for p
  proof (cases "view p")
    case (Held k)
    then show ?thesis
      using assms(1)[OF that _ Held] assms(2)[OF that Held] by simp
  qed simp_all
  then show ?thesis by (simp add: probe_ok_def)
qed

lemma probe_ok_unheld: "(\<And>p. p < n \<Longrightarrow> \<forall>k. view p \<noteq> Held k) \<Longrightarrow> probe_ok n home view"
  by (rule probe_okI) auto

text \<open>The invariant speaks of the first \<open>n\<close> slots only.\<close>

lemma probe_ok_cong:
  assumes ok: "probe_ok n home view" and n: "0 < n" and eq: "\<And>p. p < n \<Longrightarrow> view' p = view p"
  shows "probe_ok n home view'"
  using ok eq n by (auto intro!: probe_okI dest: probe_ok_unique probe_ok_chain)

text \<open>
  Slots may become tombstones at will (a whole set of them at once): a tombstone is not free,
  so no chain breaks.
\<close>

lemma probe_ok_tombs:
  assumes ok: "probe_ok n home view" and n: "0 < n"
    and tombs: "\<And>p. p < n \<Longrightarrow> view' p = view p \<or> view' p = Tomb"
  shows "probe_ok n home view'"
proof (rule probe_okI)
  fix p q k
  assume "p < n" "q < n" "view' p = Held k" "view' q = Held k"
  with tombs[of p] tombs[of q] have "view p = Held k" "view q = Held k" by auto
  with ok \<open>p < n\<close> \<open>q < n\<close> show "q = p" by (blast intro: probe_ok_unique)
next
  fix p k j
  assume p: "p < n" "view' p = Held k" and j: "j < ring_dist n (home k) p"
  with tombs[of p] have "view p = Held k" by auto
  with ok p j have "view (ring_pos n (home k) j) \<noteq> Free" by (auto dest: probe_ok_chain)
  with tombs[of "ring_pos n (home k) j"] n show "view' (ring_pos n (home k) j) \<noteq> Free" by auto
qed

text \<open>
  A key may be written to any slot of its probe sequence that no free slot precedes, provided
  no other slot holds it.
\<close>

lemma probe_ok_fill:
  assumes ok: "probe_ok n home view" and n: "0 < n" and p: "p < n"
    and path: "\<And>j. j < ring_dist n (home k) p \<Longrightarrow> view (ring_pos n (home k) j) \<noteq> Free"
    and sole: "\<And>q. q < n \<Longrightarrow> view q = Held k \<Longrightarrow> q = p"
  shows "probe_ok n home (view(p := Held k))"
proof (rule probe_okI)
  fix q q' k'
  assume "q < n" "q' < n" "(view(p := Held k)) q = Held k'" "(view(p := Held k)) q' = Held k'"
  with ok sole show "q' = q" by (auto dest: probe_ok_unique split: if_splits)
next
  fix q k' j
  assume "q < n" "(view(p := Held k)) q = Held k'" "j < ring_dist n (home k') q"
  with ok path show "(view(p := Held k)) (ring_pos n (home k') j) \<noteq> Free"
    by (auto dest: probe_ok_chain split: if_splits)
qed

section \<open>The interface of a searched table\<close>

text \<open>
  What a search relies on: a state type with an invariant, the number of slots, the home slot
  of a key and the view of a slot.  \<open>search\<close> is the scan along the probe sequence of a key.
\<close>

definition search :: "nat \<Rightarrow> ('k \<Rightarrow> nat) \<Rightarrow> (nat \<Rightarrow> 'k slot_view) \<Rightarrow> 'k \<Rightarrow> scan_result" where
  "search n home view k = scan (\<lambda>j. view (ring_pos n (home k) j)) k 0 n"

locale hashed_slots =
  fixes invar :: "'s \<Rightarrow> bool"
    and slot_count :: "'s \<Rightarrow> nat"
    and home :: "'s \<Rightarrow> 'k \<Rightarrow> nat"
    and view :: "'s \<Rightarrow> nat \<Rightarrow> 'k slot_view"
  assumes count_pos: "invar s \<Longrightarrow> 0 < slot_count s"
    and home_less: "invar s \<Longrightarrow> home s k < slot_count s"
    and view_unique: "invar s \<Longrightarrow> p < slot_count s \<Longrightarrow> q < slot_count s \<Longrightarrow>
          view s p = Held k \<Longrightarrow> view s q = Held k \<Longrightarrow> p = q"
    and view_chain: "invar s \<Longrightarrow> p < slot_count s \<Longrightarrow> view s p = Held k \<Longrightarrow>
          j < ring_dist (slot_count s) (home s k) p \<Longrightarrow>
          view s (ring_pos (slot_count s) (home s k) j) \<noteq> Free"
begin

lemma search_held:
  assumes inv: "invar s" and p: "p < slot_count s" and held: "view s p = Held k"
  shows "search (slot_count s) (home s) (view s) k = Found (ring_dist (slot_count s) (home s k) p)"
proof -
  let ?n = "slot_count s" and ?h = "home s k"
  have n: "0 < ?n" and h: "?h < ?n" using inv by (simp_all add: count_pos home_less)
  show ?thesis
    unfolding search_def
  proof (rule scan_FoundI)
    show "ring_dist ?n ?h p < ?n" using n by simp
    show "view s (ring_pos ?n ?h (ring_dist ?n ?h p)) = Held k"
      using h p held by (simp add: ring_pos_dist)
    fix m assume m: "m < ring_dist ?n ?h p"
    have mn: "m < ?n" using m n by (meson order.strict_trans ring_dist_less)
    have "view s (ring_pos ?n ?h m) \<noteq> Held k"
    proof
      assume "view s (ring_pos ?n ?h m) = Held k"
      then have "ring_pos ?n ?h m = p" using inv p held n by (auto intro: view_unique)
      with h mn m show False by (metis ring_dist_pos less_irrefl)
    qed
    with m inv p held show
      "view s (ring_pos ?n ?h m) \<noteq> Free \<and> view s (ring_pos ?n ?h m) \<noteq> Held k"
      by (auto dest: view_chain)
  qed
qed

lemma search_Found:
  assumes inv: "invar s" and res: "search (slot_count s) (home s) (view s) k = Found j"
  shows "j < slot_count s \<and> view s (ring_pos (slot_count s) (home s k) j) = Held k"
  using scan_FoundD[OF res[unfolded search_def]] by simp

text \<open>The search succeeds exactly when some slot holds the key.\<close>

lemma search_complete:
  assumes inv: "invar s"
  shows "(\<exists>j. search (slot_count s) (home s) (view s) k = Found j)
           \<longleftrightarrow> (\<exists>p < slot_count s. view s p = Held k)"
  using search_held[OF inv] search_Found[OF inv] count_pos[OF inv]
  by (metis ring_pos_less)

lemma search_fails:
  assumes inv: "invar s"
    and res: "\<And>j. search (slot_count s) (home s) (view s) k \<noteq> Found j"
  shows "p < slot_count s \<Longrightarrow> view s p \<noteq> Held k"
  using search_complete[OF inv] res by metis

text \<open>An exhausted search has visited every slot.\<close>

lemma search_Exhausted:
  assumes inv: "invar s" and res: "search (slot_count s) (home s) (view s) k = Exhausted"
    and p: "p < slot_count s"
  shows "view s p \<noteq> Free"
proof -
  let ?n = "slot_count s" and ?h = "home s k"
  have h: "?h < ?n" and n: "0 < ?n" using inv by (simp_all add: home_less count_pos)
  have "passed (\<lambda>j. view s (ring_pos ?n ?h j)) k 0 ?n"
    using res by (auto simp: search_def dest: scan_ExhaustedD)
  then have "view s (ring_pos ?n ?h (ring_dist ?n ?h p)) \<noteq> Free"
    using n by (auto simp: passed_def)
  with h p show ?thesis by (simp add: ring_pos_dist)
qed

end

end
