(* ===== verification/Table.thy ===== *)
theory Table
  imports Layout Probing
begin

unbundle bit_operations_syntax

text \<open>
  The data of the shared region and its invariant: \<open>CacheHeader\<close> and \<open>CacheEntry\<close> of
  \<open>include/cache_engine.h\<close>, the hash function, the address computation of \<open>get_entry_ptr\<close> and
  the expiry test of \<open>src/cache_engine.cpp\<close>; then the well-formedness invariant \<open>table_wf\<close> and
  the abstraction \<open>abs_map\<close> of a region to the map from keys to stored items.
\<close>

section \<open>The shared structures\<close>

text \<open>\<open>enum class SlotState : uint8_t\<close>, with the order of its codes.\<close>

datatype SlotState = EMPTY | OCCUPIED | DELETED

fun slot_code :: "SlotState \<Rightarrow> u8" where
  "slot_code EMPTY = 0"
| "slot_code OCCUPIED = 1"
| "slot_code DELETED = 2"

lemma slot_code_inject [simp]: "slot_code a = slot_code b \<longleftrightarrow> a = b"
  by (cases a; cases b) simp_all

instantiation SlotState :: linorder
begin
definition less_eq_SlotState :: "SlotState \<Rightarrow> SlotState \<Rightarrow> bool" where
  "less_eq_SlotState a b \<longleftrightarrow> slot_code a \<le> slot_code b"
definition less_SlotState :: "SlotState \<Rightarrow> SlotState \<Rightarrow> bool" where
  "less_SlotState a b \<longleftrightarrow> slot_code a < slot_code b"
instance
  by standard (auto simp: less_eq_SlotState_def less_SlotState_def order_less_le)
end

text \<open>The lock field is opaque: all zero bytes, or initialised as a process-shared lock.\<close>

datatype rwlock_field = Rw_zero | Rw_process_shared

record CacheHeader =
  magic :: u32
  version :: u32
  capacity :: u32
  entry_count :: u32
  data_offset :: u32
  total_hits :: u64
  total_misses :: u64
  total_collisions :: u64
  rwlock :: rwlock_field

record CacheEntry =
  slot_state :: SlotState
  slot_key :: "char list"
  slot_value :: "char list"
  timestamp :: u64
  ttl_seconds :: u32

text \<open>
  A mapped region: the header, and the entries that fit behind it in the mapping.  Only the
  first \<open>capacity\<close> of them are used.
\<close>

record region =
  hdr :: CacheHeader
  slots :: "CacheEntry list"

abbreviation cap :: "region \<Rightarrow> nat" where
  "cap r \<equiv> unat (capacity (hdr r))"

text \<open>An entry of all zero bytes, as \<open>memset\<close> leaves it.\<close>

definition zero_entry :: CacheEntry where
  "zero_entry = \<lparr>slot_state = EMPTY, slot_key = replicate MAX_KEY_LEN NUL,
     slot_value = replicate MAX_VAL_LEN NUL, timestamp = 0, ttl_seconds = 0\<rparr>"

section \<open>Hashing\<close>

text \<open>
  \<open>int c = *key++\<close> sign-extends the \<open>char\<close>, and the addition to the \<open>uint32_t\<close> hash wraps.
\<close>

definition char_to_int :: "char \<Rightarrow> u32" where
  "char_to_int c = scast (of_char c :: u8)"

fun hash_loop :: "u32 \<Rightarrow> char list \<Rightarrow> u32" where
  "hash_loop hash [] = hash"
| "hash_loop hash (c # key) =
     (if c = NUL then hash
      else hash_loop ((push_bit 5 hash + hash) + char_to_int c) key)"

definition hash_key :: "char list \<Rightarrow> u32 \<Rightarrow> u32" where
  "hash_key key cpc = hash_loop 5381 key mod cpc"

lemma hash_loop_cstr [simp]: "hash_loop h (cstr key) = hash_loop h key"
  by (induction key arbitrary: h) (auto simp: cstr_Cons)

lemma hash_key_cstr [simp]: "hash_key (cstr key) n = hash_key key n"
  by (simp add: hash_key_def)

lemma hash_key_less: "0 < unat n \<Longrightarrow> unat (hash_key key n) < unat n"
  by (simp add: hash_key_def unat_mod_eq)

text \<open>The polynomial the hash computes, over the integers and without wrapping.\<close>

definition djb2 :: "string \<Rightarrow> int" where
  "djb2 s = foldl (\<lambda>h c. 33 * h + sint (of_char c :: u8)) 5381 s"

lemma hash_step: "(push_bit 5 h + h) + char_to_int c = 33 * h + char_to_int c" for h :: u32
  by (simp add: push_bit_eq_mult)

lemma hash_loop_foldl:
  assumes "NUL \<notin> set s"
  shows "hash_loop (of_int h) s = of_int (foldl (\<lambda>h c. 33 * h + sint (of_char c :: u8)) h s)"
  using assms
proof (induction s arbitrary: h)
  case Nil
  then show ?case by simp
next
  case (Cons c s)
  then have "hash_loop (of_int h) (c # s) = hash_loop (33 * of_int h + char_to_int c) s"
    by (auto simp: hash_step)
  also have "33 * of_int h + char_to_int c = of_int (33 * h + sint (of_char c :: u8))"
    by (simp add: char_to_int_def)
  finally show ?case using Cons by (simp del: of_int_add of_int_mult of_int_sint)
qed

lemma hash_loop_djb2: "hash_loop 5381 key = of_int (djb2 (cstr key))"
  using hash_loop_foldl[of "cstr key" 5381] by (simp add: djb2_def)

section \<open>Entry addresses\<close>

text \<open>
  \<open>uint32_t offset = header->data_offset + (index * sizeof(CacheEntry))\<close>: the product and the
  sum are computed in \<open>size_t\<close> and the result is cut to 32 bits.  \<open>entry_pos\<close> is the position
  in the entry array of the entry at that offset.
\<close>

definition entry_offset :: "CacheHeader \<Rightarrow> u32 \<Rightarrow> u32" where
  "entry_offset header index =
     ucast (ucast (data_offset header) + ucast index * of_nat sizeof_CacheEntry :: u64)"

definition entry_pos :: "CacheHeader \<Rightarrow> u32 \<Rightarrow> nat" where
  "entry_pos header index =
     (unat (entry_offset header index) - sizeof_CacheHeader) div sizeof_CacheEntry"

text \<open>\<open>get_entry_ptr\<close>; the base pointer is \<open>None\<close> for \<open>nullptr\<close>.\<close>

definition get_entry_ptr :: "region option \<Rightarrow> u32 \<Rightarrow> nat option" where
  "get_entry_ptr shm_base index =
     (case shm_base of None \<Rightarrow> None | Some r \<Rightarrow> Some (entry_pos (hdr r) index))"

definition entry_at :: "region \<Rightarrow> u32 \<Rightarrow> CacheEntry" where
  "entry_at r index = slots r ! entry_pos (hdr r) index"

definition set_entry :: "region \<Rightarrow> nat \<Rightarrow> CacheEntry \<Rightarrow> region" where
  "set_entry r p e = r\<lparr>slots := (slots r)[p := e]\<rparr>"

section \<open>Expiry\<close>

definition cache_entry_expired :: "CacheEntry \<Rightarrow> u64 \<Rightarrow> bool" where
  "cache_entry_expired entry now \<longleftrightarrow>
     0 < ttl_seconds entry \<and> timestamp entry \<le> now \<and>
     ucast (ttl_seconds entry) \<le> now - timestamp entry"

section \<open>Well-formed tables\<close>

text \<open>The header describes an entry array whose 32-bit offsets do not wrap.\<close>

definition layout_ok :: "region \<Rightarrow> bool" where
  "layout_ok r \<longleftrightarrow>
     unat (data_offset (hdr r)) = sizeof_CacheHeader \<and> 0 < cap r \<and> cap r \<le> length (slots r) \<and>
     sizeof_CacheHeader + cap r * sizeof_CacheEntry \<le> 4294967296"

text \<open>The arrays of an entry have their sizes; an occupied one holds a key and a value.\<close>

definition entry_ok :: "CacheEntry \<Rightarrow> bool" where
  "entry_ok e \<longleftrightarrow>
     length (slot_key e) = MAX_KEY_LEN \<and> length (slot_value e) = MAX_VAL_LEN \<and>
     (slot_state e = OCCUPIED \<longrightarrow>
        terminated (slot_key e) \<and> terminated (slot_value e) \<and> cstr (slot_key e) \<noteq> [])"

definition entry_view :: "CacheEntry \<Rightarrow> string slot_view" where
  "entry_view e =
     (case slot_state e of
        EMPTY \<Rightarrow> Free | DELETED \<Rightarrow> Tomb | OCCUPIED \<Rightarrow> Held (cstr (slot_key e)))"

definition view :: "region \<Rightarrow> nat \<Rightarrow> string slot_view" where
  "view r p = entry_view (slots r ! p)"

definition home :: "region \<Rightarrow> string \<Rightarrow> nat" where
  "home r k = unat (hash_key k (capacity (hdr r)))"

abbreviation occupied :: "CacheEntry \<Rightarrow> bool" where
  "occupied e \<equiv> slot_state e = OCCUPIED"

definition table :: "region \<Rightarrow> CacheEntry list" where
  "table r = take (cap r) (slots r)"

definition table_wf :: "region \<Rightarrow> bool" where
  "table_wf r \<longleftrightarrow>
     layout_ok r \<and> list_all entry_ok (table r) \<and>
     unat (entry_count (hdr r)) = count_if occupied (table r) \<and>
     probe_ok (cap r) (home r) (view r)"

section \<open>The map a table stands for\<close>

record item =
  item_value :: string
  item_time :: u64
  item_ttl :: u32

definition entry_item :: "CacheEntry \<Rightarrow> item" where
  "entry_item e = \<lparr>item_value = cstr (slot_value e), item_time = timestamp e,
     item_ttl = ttl_seconds e\<rparr>"

definition abs_map :: "region \<Rightarrow> string \<Rightarrow> item option" where
  "abs_map r k =
     map_option entry_item (find (\<lambda>e. entry_view e = Held k) (table r))"

definition item_expired :: "item \<Rightarrow> u64 \<Rightarrow> bool" where
  "item_expired it now \<longleftrightarrow>
     0 < item_ttl it \<and> item_time it \<le> now \<and> unat (item_ttl it) \<le> unat now - unat (item_time it)"

section \<open>Lemmas\<close>

lemma entry_view_cases [simp]:
  "entry_view e = Free \<longleftrightarrow> slot_state e = EMPTY"
  "entry_view e = Tomb \<longleftrightarrow> slot_state e = DELETED"
  "entry_view e = Held k \<longleftrightarrow> slot_state e = OCCUPIED \<and> cstr (slot_key e) = k"
  by (auto simp: entry_view_def split: SlotState.splits)

lemma expired_item: "item_expired (entry_item e) now \<longleftrightarrow> cache_entry_expired e now"
proof (cases "timestamp e \<le> now")
  case True
  then have "unat (now - timestamp e) = unat now - unat (timestamp e)"
    by (simp add: unat_sub)
  then show ?thesis
    by (simp add: item_expired_def entry_item_def cache_entry_expired_def word_le_nat_alt)
next
  case False
  then show ?thesis by (simp add: item_expired_def entry_item_def cache_entry_expired_def)
qed

lemma layout_wf: "table_wf r \<Longrightarrow> layout_ok r"
  by (simp add: table_wf_def)

lemma layout_cap_pos: "layout_ok r \<Longrightarrow> 0 < cap r"
  by (simp add: layout_ok_def)

lemma layout_cap_le: "layout_ok r \<Longrightarrow> cap r \<le> length (slots r)"
  by (simp add: layout_ok_def)

lemma layout_cap_bound: "layout_ok r \<Longrightarrow> cap r < 2 ^ 31"
  by (simp add: layout_ok_def)

lemma length_table [simp]: "layout_ok r \<Longrightarrow> length (table r) = cap r"
  by (simp add: table_def layout_ok_def)

lemma table_nth [simp]: "p < cap r \<Longrightarrow> table r ! p = slots r ! p"
  by (simp add: table_def)

lemma unat_entry_offset:
  "unat (entry_offset h i)
     = (unat (data_offset h) + unat i * sizeof_CacheEntry) mod 4294967296"
proof -
  have d: "unat (data_offset h) < 4294967296" and i: "unat i < 4294967296"
    by (rule u32_bound)+
  have m: "unat (ucast i * 344 :: u64) = unat i * 344"
    using i by (subst unat_word_ariths) (simp add: mod_less)
  have s: "unat (ucast (data_offset h) + ucast i * 344 :: u64) = unat (data_offset h) + unat i * 344"
    using d i by (subst unat_add_small) (simp_all add: m)
  show ?thesis
    by (simp add: entry_offset_def unsigned_ucast_eq take_bit_eq_mod s)
qed

lemma entry_pos_eq:
  assumes "layout_ok r" "unat i < cap r"
  shows "entry_pos (hdr r) i = unat i"
proof -
  from assms have "104 + unat i * 344 < 4294967296" and "unat (data_offset (hdr r)) = 104"
    by (auto simp: layout_ok_def)
  then show ?thesis by (simp add: entry_pos_def unat_entry_offset)
qed

lemma entry_at_eq: "layout_ok r \<Longrightarrow> unat i < cap r \<Longrightarrow> entry_at r i = slots r ! unat i"
  by (simp add: entry_at_def entry_pos_eq)

lemma home_less_cap: "layout_ok r \<Longrightarrow> home r k < cap r"
  by (simp add: home_def hash_key_less layout_ok_def)

interpretation tbl: hashed_slots table_wf "\<lambda>r. cap r" home view
proof
  fix r :: region
  assume wf: "table_wf r"
  then have lay: "layout_ok r" and ok: "probe_ok (cap r) (home r) (view r)"
    by (simp_all add: table_wf_def)
  show "0 < cap r" by (rule layout_cap_pos[OF lay])
  show "home r k < cap r" for k by (rule home_less_cap[OF lay])
  show "p = q" if "p < cap r" "q < cap r" "view r p = Held k" "view r q = Held k" for p q k
    using probe_ok_unique[OF ok] that by blast
  show "view r (ring_pos (cap r) (home r k) j) \<noteq> Free"
    if "p < cap r" "view r p = Held k" "j < ring_dist (cap r) (home r k) p" for p k j
    using probe_ok_chain[OF ok] that by blast
qed

subsection \<open>The abstraction of a well-formed table\<close>

lemma abs_map_SomeI:
  assumes "table_wf r" "p < cap r" "view r p = Held k"
  shows "abs_map r k = Some (entry_item (slots r ! p))"
proof -
  have lay: "layout_ok r" using assms by (simp add: layout_wf)
  have v: "entry_view (table r ! p) = Held k" using assms by (simp add: view_def)
  have "find (\<lambda>e. entry_view e = Held k) (table r) = Some (table r ! p)"
    unfolding find_Some_iff
  proof (intro exI conjI allI impI)
    show "p < length (table r)" using lay assms by simp
    show "entry_view (table r ! p) = Held k" by (rule v)
    show "table r ! p = table r ! p" by (rule refl)
    fix q assume "q < p"
    then show "entry_view (table r ! q) \<noteq> Held k"
      using assms tbl.view_unique[OF assms(1), of q p k] by (auto simp: view_def)
  qed
  with assms show ?thesis by (simp add: abs_map_def)
qed

lemma abs_map_NoneI:
  assumes "layout_ok r" "\<And>p. p < cap r \<Longrightarrow> view r p \<noteq> Held k"
  shows "abs_map r k = None"
proof -
  have "find (\<lambda>e. entry_view e = Held k) (table r) = None"
    using assms by (auto simp: find_None_iff in_set_conv_nth view_def)
  then show ?thesis by (simp add: abs_map_def)
qed

lemma abs_map_SomeD:
  assumes "table_wf r" "abs_map r k = Some it"
  obtains p where "p < cap r" "view r p = Held k" "it = entry_item (slots r ! p)"
proof (cases "\<exists>p<cap r. view r p = Held k")
  case True
  with assms that show ?thesis by (metis abs_map_SomeI option.inject)
next
  case False
  with assms show ?thesis by (simp add: abs_map_NoneI layout_wf)
qed

lemma abs_map_eqI:
  assumes "table_wf r"
    and "\<And>k p. p < cap r \<Longrightarrow> view r p = Held k \<Longrightarrow> m k = Some (entry_item (slots r ! p))"
    and "\<And>k. (\<And>p. p < cap r \<Longrightarrow> view r p \<noteq> Held k) \<Longrightarrow> m k = None"
  shows "abs_map r = m"
proof
  fix k
  show "abs_map r k = m k"
    using assms by (cases "\<exists>p<cap r. view r p = Held k")
      (auto simp: abs_map_SomeI abs_map_NoneI layout_wf)
qed

end
