(* ===== verification/Search.thy ===== *)
theory Search
  imports Table
begin

text \<open>
  The probe loops of \<open>src/cache_engine.cpp\<close>, with their 32-bit indices: the search for an
  insertion slot (\<open>find_slot_internal\<close>), the search for a key (\<open>find_key_locked\<close>), and the loops
  written out in \<open>cache_get\<close>, \<open>cache_update\<close> and \<open>cache_delete\<close>.  Each is shown to compute the
  abstract search of theory \<open>Probing\<close> along the probe sequence of the key.
\<close>

section \<open>The loops\<close>

definition probe_index :: "region \<Rightarrow> u32 \<Rightarrow> u32 \<Rightarrow> u32" where
  "probe_index r start i = (start + i) mod capacity (hdr r)"

text \<open>
  The loop of \<open>find_slot_internal\<close>: \<open>first_deleted_idx\<close> is \<open>-1\<close> until a tombstone is met, and
  the collision counter is a nullable out parameter.
\<close>

function find_slot_loop ::
  "region \<Rightarrow> char list \<Rightarrow> u32 \<Rightarrow> u32 \<Rightarrow> i32 \<Rightarrow> u32 option \<Rightarrow> i32 \<times> u32 option" where
  "find_slot_loop r key start i first_deleted_idx collision_count =
     (if i < capacity (hdr r) then
        let collision_count =
              (if 0 < i then map_option (\<lambda>c. c + 1) collision_count else collision_count);
            curr_index = probe_index r start i;
            entry = entry_at r curr_index
        in if slot_state entry = EMPTY then
             (if first_deleted_idx \<noteq> - 1 then first_deleted_idx else curr_index, collision_count)
           else if slot_state entry = DELETED then
             find_slot_loop r key start (i + 1)
               (if first_deleted_idx = - 1 then curr_index else first_deleted_idx)
               collision_count
           else if slot_state entry = OCCUPIED \<and> strcmp_eq (slot_key entry) key then
             (curr_index, collision_count)
           else find_slot_loop r key start (i + 1) first_deleted_idx collision_count
      else (first_deleted_idx, collision_count))"
  by pat_completeness auto
termination
  by (relation "measure (\<lambda>(r, key, start, i, fd, cc). cap r - unat i)")
    (auto simp: unat_succ_less word_less_nat_alt)

definition find_slot_internal ::
  "region option \<Rightarrow> char list option \<Rightarrow> u32 option \<Rightarrow> i32 \<times> u32 option" where
  "find_slot_internal shm_base key collision_count =
     (case shm_base of None \<Rightarrow> (- 1, collision_count)
      | Some r \<Rightarrow>
         (case key of None \<Rightarrow> (- 1, collision_count)
          | Some k \<Rightarrow> find_slot_loop r k (hash_key k (capacity (hdr r))) 0 (- 1) collision_count))"

function find_key_loop :: "region \<Rightarrow> char list \<Rightarrow> u32 \<Rightarrow> u32 \<Rightarrow> i32" where
  "find_key_loop r key start i =
     (if i < capacity (hdr r) then
        let curr_index = probe_index r start i;
            entry = entry_at r curr_index
        in if slot_state entry = EMPTY then - 1
           else if slot_state entry = OCCUPIED \<and> strcmp_eq (slot_key entry) key then curr_index
           else find_key_loop r key start (i + 1)
      else - 1)"
  by pat_completeness auto
termination
  by (relation "measure (\<lambda>(r, key, start, i). cap r - unat i)")
    (auto simp: unat_succ_less word_less_nat_alt)

definition find_key_locked :: "region \<Rightarrow> char list \<Rightarrow> i32" where
  "find_key_locked r key = find_key_loop r key (hash_key key (capacity (hdr r))) 0"

text \<open>
  How the loops of \<open>cache_get\<close>, \<open>cache_update\<close> and \<open>cache_delete\<close> are left: at an empty slot, at
  the entry of the key (with its index), or at the end; with the number of extra slots looked at.
\<close>

datatype probe_exit = Exit_empty u32 | Exit_match u32 u32 | Exit_end u32

text \<open>The loop of \<open>cache_get\<close> keeps its own counter \<open>collisions\<close>.\<close>

function get_loop :: "region \<Rightarrow> char list \<Rightarrow> u32 \<Rightarrow> u32 \<Rightarrow> u32 \<Rightarrow> probe_exit" where
  "get_loop r key start i collisions =
     (if i < capacity (hdr r) then
        let collisions = (if 0 < i then collisions + 1 else collisions);
            curr_index = probe_index r start i;
            entry = entry_at r curr_index
        in if slot_state entry = EMPTY then Exit_empty collisions
           else if slot_state entry = OCCUPIED \<and> strcmp_eq (slot_key entry) key then
             Exit_match curr_index collisions
           else get_loop r key start (i + 1) collisions
      else Exit_end collisions)"
  by pat_completeness auto
termination
  by (relation "measure (\<lambda>(r, key, start, i, c). cap r - unat i)")
    (auto simp: unat_succ_less word_less_nat_alt)

text \<open>
  The loops of \<open>cache_update\<close> and \<open>cache_delete\<close> add the loop index, or \<open>capacity - 1\<close>.
\<close>

function probe_loop :: "region \<Rightarrow> char list \<Rightarrow> u32 \<Rightarrow> u32 \<Rightarrow> probe_exit" where
  "probe_loop r key start i =
     (if i < capacity (hdr r) then
        let curr_index = probe_index r start i;
            entry = entry_at r curr_index
        in if slot_state entry = EMPTY then Exit_empty i
           else if slot_state entry = OCCUPIED \<and> strcmp_eq (slot_key entry) key then
             Exit_match curr_index i
           else probe_loop r key start (i + 1)
      else Exit_end (capacity (hdr r) - 1))"
  by pat_completeness auto
termination
  by (relation "measure (\<lambda>(r, key, start, i). cap r - unat i)")
    (auto simp: unat_succ_less word_less_nat_alt)

declare find_slot_loop.simps [simp del] find_key_loop.simps [simp del]
  get_loop.simps [simp del] probe_loop.simps [simp del]

section \<open>One visit of a loop\<close>

definition visit :: "region \<Rightarrow> string \<Rightarrow> nat \<Rightarrow> string slot_view" where
  "visit r k j = view r (ring_pos (cap r) (home r k) j)"

definition slot_word :: "region \<Rightarrow> string \<Rightarrow> nat \<Rightarrow> u32" where
  "slot_word r k j = of_nat (ring_pos (cap r) (home r k) j)"

abbreviation start_of :: "region \<Rightarrow> char list \<Rightarrow> u32" where
  "start_of r key \<equiv> hash_key key (capacity (hdr r))"

lemma search_visit: "search (cap r) (home r) (view r) k = scan (visit r k) k 0 (cap r)"
  by (simp add: search_def visit_def[abs_def])

lemma unat_slot_word:
  assumes "layout_ok r"
  shows "unat (slot_word r k j) = ring_pos (cap r) (home r k) j"
proof -
  have "ring_pos (cap r) (home r k) j < cap r"
    using layout_cap_pos[OF assms] by simp
  then have "ring_pos (cap r) (home r k) j < 2 ^ LENGTH(32)"
    using layout_cap_bound[OF assms] by simp
  then show ?thesis by (simp add: slot_word_def unsigned_of_nat take_bit_nat_eq_self)
qed

lemma slot_word_nonneg:
  assumes "layout_ok r"
  shows "\<not> sint (slot_word r k j) < 0" "slot_word r k j \<noteq> - 1"
proof -
  have "unat (slot_word r k j) < 2 ^ 31"
    using unat_slot_word[OF assms, of k j] layout_cap_pos[OF assms] layout_cap_bound[OF assms]
    by (metis order.strict_trans ring_pos_less)
  then show "\<not> sint (slot_word r k j) < 0" "slot_word r k j \<noteq> - 1"
    by (simp_all add: sint_u32_small small_not_minus_one)
qed

lemma probe_index_eq:
  assumes lay: "layout_ok r" and i: "i < capacity (hdr r)"
  shows "probe_index r (start_of r key) i = slot_word r (cstr key) (unat i)"
proof -
  have "unat (start_of r key) < cap r" using layout_cap_pos[OF lay] by (rule hash_key_less)
  moreover have "unat i < cap r" using i by (simp add: word_less_nat_alt)
  ultimately have "unat (start_of r key) + unat i < 2 ^ LENGTH(32)"
    using layout_cap_bound[OF lay] by simp
  then have "unat (probe_index r (start_of r key) i)
      = ring_pos (cap r) (home r (cstr key)) (unat i)"
    by (simp add: probe_index_def unat_mod_eq unat_add_small ring_pos_def home_def)
  then show ?thesis
    using unat_slot_word[OF lay, of "cstr key" "unat i"] by (metis word_unat_eq_iff)
qed

lemma entry_at_slot_word:
  assumes "layout_ok r"
  shows "entry_at r (slot_word r k j) = slots r ! ring_pos (cap r) (home r k) j"
  using layout_cap_pos[OF assms] by (simp add: entry_at_eq[OF assms] unat_slot_word[OF assms])

text \<open>The tests of a loop body, as tests of the visited slot.\<close>

lemma probe_tests:
  assumes "layout_ok r"
  shows "slot_state (entry_at r (slot_word r k j)) = EMPTY \<longleftrightarrow> visit r k j = Free"
    and "slot_state (entry_at r (slot_word r k j)) = DELETED \<longleftrightarrow> visit r k j = Tomb"
    and "slot_state (entry_at r (slot_word r (cstr key) j)) = OCCUPIED \<and>
         strcmp_eq (slot_key (entry_at r (slot_word r (cstr key) j))) key
           \<longleftrightarrow> visit r (cstr key) j = Held (cstr key)"
  by (simp_all add: entry_at_slot_word[OF assms] strcmp_eq_def visit_def view_def)

section \<open>The loops compute the search\<close>

lemma find_key_loop_eq:
  assumes "layout_ok r" "unat i \<le> cap r"
  shows "find_key_loop r key (start_of r key) i =
    (case scan (visit r (cstr key)) (cstr key) (unat i) (cap r) of
       Found j \<Rightarrow> slot_word r (cstr key) j | _ \<Rightarrow> - 1)"
  using assms
proof (induction r key "start_of r key" i rule: find_key_loop.induct)
  case (1 r key i)
  show ?case
  proof (cases "i < capacity (hdr r)")
    case True
    then have n: "unat i < cap r" by (simp add: word_less_nat_alt)
    note IH = "1.hyps"[OF True refl refl]
    show ?thesis
      using "1.prems" n True IH
      by (subst find_key_loop.simps)
        (simp add: probe_tests scan_step probe_index_eq unat_succ_less Let_def)
  next
    case False
    then show ?thesis
      by (subst find_key_loop.simps) (simp add: word_less_nat_alt)
  qed
qed

lemma find_key_locked_eq:
  assumes "layout_ok r"
  shows "find_key_locked r key =
    (case search (cap r) (home r) (view r) (cstr key) of
       Found j \<Rightarrow> slot_word r (cstr key) j | _ \<Rightarrow> - 1)"
  by (simp add: find_key_locked_def find_key_loop_eq[OF assms] search_visit)

text \<open>Extra slots inspected by a search.\<close>

definition extra_visits :: "nat \<Rightarrow> scan_result \<Rightarrow> nat" where
  "extra_visits n res = (case res of Found j \<Rightarrow> j | Stopped j \<Rightarrow> j | Exhausted \<Rightarrow> n - 1)"

definition exit_of :: "region \<Rightarrow> string \<Rightarrow> scan_result \<Rightarrow> probe_exit" where
  "exit_of r k res =
     (case res of
        Found j \<Rightarrow> Exit_match (slot_word r k j) (of_nat j)
      | Stopped j \<Rightarrow> Exit_empty (of_nat j)
      | Exhausted \<Rightarrow> Exit_end (of_nat (cap r - 1)))"

lemma probe_loop_eq:
  assumes "layout_ok r" "unat i \<le> cap r"
  shows "probe_loop r key (start_of r key) i =
    exit_of r (cstr key) (scan (visit r (cstr key)) (cstr key) (unat i) (cap r))"
  using assms
proof (induction r key "start_of r key" i rule: probe_loop.induct)
  case (1 r key i)
  show ?case
  proof (cases "i < capacity (hdr r)")
    case True
    then have n: "unat i < cap r" by (simp add: word_less_nat_alt)
    note IH = "1.hyps"[OF True refl refl]
    show ?thesis
      using "1.prems" n True IH
      by (subst probe_loop.simps)
        (simp add: probe_tests scan_step probe_index_eq unat_succ_less Let_def exit_of_def)
  next
    case False
    moreover have "capacity (hdr r) - 1 = of_nat (cap r - 1)"
      using layout_cap_pos[OF "1.prems"(1)] by (simp add: of_nat_diff)
    ultimately show ?thesis
      by (subst probe_loop.simps) (simp add: word_less_nat_alt exit_of_def)
  qed
qed

text \<open>
  The counter of \<open>cache_get\<close> is the loop index once the loop has started, so both kinds of
  loop leave with the same numbers.
\<close>

lemma get_loop_probe_loop:
  assumes "layout_ok r" "0 < i" "i \<le> capacity (hdr r)"
  shows "get_loop r key start i (i - 1) = probe_loop r key start i"
  using assms
proof (induction r key start i rule: probe_loop.induct)
  case (1 r key start i)
  show ?case
  proof (cases "i < capacity (hdr r)")
    case True
    note IH = "1.IH"[OF True refl refl]
    have s: "0 < i + 1" "i + 1 \<le> capacity (hdr r)"
      using True unat_succ_less[OF True] succ_le_of_less[OF True]
      by (simp_all add: word_less_nat_alt)
    show ?thesis
      using "1.prems" True IH s
      by (subst get_loop.simps, subst probe_loop.simps) (simp add: Let_def)
  next
    case False
    with "1.prems" have "i = capacity (hdr r)" by simp
    then show ?thesis
      by (subst get_loop.simps, subst probe_loop.simps) simp
  qed
qed

lemma get_loop_eq:
  assumes "layout_ok r"
  shows "get_loop r key start 0 0 = probe_loop r key start 0"
proof -
  have c: "0 < capacity (hdr r)"
    using layout_cap_pos[OF assms] by (simp add: word_less_nat_alt)
  then have one: "1 \<le> capacity (hdr r)" using succ_le_of_less[OF c] by simp
  have "get_loop r key start 1 0 = probe_loop r key start 1"
    using get_loop_probe_loop[OF assms, of 1] one by simp
  with c show ?thesis
    by (subst get_loop.simps, subst probe_loop.simps) (simp add: Let_def)
qed

lemma probe_loop_search:
  assumes "layout_ok r"
  shows "probe_loop r key (start_of r key) 0
     = exit_of r (cstr key) (search (cap r) (home r) (view r) (cstr key))"
  using probe_loop_eq[OF assms, of 0 key] by (simp add: search_visit)

section \<open>The insertion search\<close>

text \<open>The first tombstone visited, if there is one, takes the place of the slot found at the end.\<close>

definition tomb_or :: "region \<Rightarrow> string \<Rightarrow> nat \<Rightarrow> nat \<Rightarrow> i32 \<Rightarrow> i32" where
  "tomb_or r k i j d =
     (case find (\<lambda>m. visit r k m = Tomb) [i..<j] of Some m \<Rightarrow> slot_word r k m | None \<Rightarrow> d)"

definition insert_slot :: "region \<Rightarrow> string \<Rightarrow> nat \<Rightarrow> scan_result \<Rightarrow> i32" where
  "insert_slot r k i res =
     (case res of
        Found j \<Rightarrow> slot_word r k j
      | Stopped j \<Rightarrow> tomb_or r k i j (slot_word r k j)
      | Exhausted \<Rightarrow> tomb_or r k i (cap r) (- 1))"

lemma tomb_or_empty [simp]: "\<not> i < j \<Longrightarrow> tomb_or r k i j d = d"
  by (simp add: tomb_or_def)

lemma tomb_or_step:
  "i < j \<Longrightarrow> tomb_or r k i j d =
     (if visit r k i = Tomb then slot_word r k i else tomb_or r k (Suc i) j d)"
  by (simp add: tomb_or_def upt_conv_Cons)

lemma scan_later:
  "scan f k (Suc i) n = Found j \<Longrightarrow> Suc i \<le> n \<Longrightarrow> i < j"
  "scan f k (Suc i) n = Stopped j \<Longrightarrow> Suc i \<le> n \<Longrightarrow> i < j"
  using scan_cases[of "Suc i" n f k] by auto

lemma insert_slot_step:
  assumes "i < cap r" "visit r k i \<noteq> Free" "visit r k i \<noteq> Held k"
  shows "(case scan (visit r k) k i (cap r) of
            Found j \<Rightarrow> slot_word r k j
          | res \<Rightarrow> if fd \<noteq> - 1 then fd else insert_slot r k i res)
       = (case scan (visit r k) k (Suc i) (cap r) of
            Found j \<Rightarrow> slot_word r k j
          | res \<Rightarrow> if fd \<noteq> - 1 then fd
                   else if visit r k i = Tomb then slot_word r k i
                   else insert_slot r k (Suc i) res)"
proof -
  have e: "scan (visit r k) k i (cap r) = scan (visit r k) k (Suc i) (cap r)"
    using assms by (simp add: scan_step)
  show ?thesis
  proof (cases "scan (visit r k) k (Suc i) (cap r)")
    case (Found j)
    with e show ?thesis by simp
  next
    case (Stopped j)
    then have "i < j" using scan_later(2) assms(1) by (metis Suc_leI)
    with e Stopped show ?thesis by (simp add: insert_slot_def tomb_or_step)
  next
    case Exhausted
    with e assms(1) show ?thesis by (simp add: insert_slot_def tomb_or_step)
  qed
qed

lemma find_slot_loop_eq:
  assumes "layout_ok r" "unat i \<le> cap r"
  shows "fst (find_slot_loop r key (start_of r key) i fd cc) =
    (case scan (visit r (cstr key)) (cstr key) (unat i) (cap r) of
       Found j \<Rightarrow> slot_word r (cstr key) j
     | res \<Rightarrow> if fd \<noteq> - 1 then fd else insert_slot r (cstr key) (unat i) res)"
  using assms
proof (induction r key "start_of r key" i fd cc rule: find_slot_loop.induct)
  case (1 r key i fd cc)
  let ?f = "visit r (cstr key)"
  show ?case
  proof (cases "i < capacity (hdr r)")
    case True
    then have n: "unat i < cap r" by (simp add: word_less_nat_alt)
    note lay = \<open>layout_ok r\<close>
    note nn = slot_word_nonneg(2)[OF lay]
    show ?thesis
    proof (cases "?f (unat i) = Free \<or> ?f (unat i) = Held (cstr key)")
      case stop: True
      with n True lay nn show ?thesis
        by (subst find_slot_loop.simps)
          (auto simp: probe_tests probe_index_eq scan_step insert_slot_def Let_def)
    next
      case False
      note IH = "1.hyps"[OF True refl refl refl]
      show ?thesis
        using "1.prems" n True IH False nn
        by (subst find_slot_loop.simps, subst insert_slot_step)
          (auto simp: probe_tests probe_index_eq unat_succ_less Let_def cong: scan_result.case_cong)
    qed
  next
    case False
    then show ?thesis
      by (subst find_slot_loop.simps) (simp add: word_less_nat_alt insert_slot_def)
  qed
qed

fun exit_count :: "probe_exit \<Rightarrow> u32" where
  "exit_count (Exit_empty c) = c"
| "exit_count (Exit_match p c) = c"
| "exit_count (Exit_end c) = c"

lemma find_slot_loop_count:
  assumes "layout_ok r" "0 < i" "i \<le> capacity (hdr r)"
  shows "snd (find_slot_loop r key start i fd cc) =
     map_option (\<lambda>c. c + (exit_count (probe_loop r key start i) - (i - 1))) cc"
  using assms
proof (induction r key start i fd cc rule: find_slot_loop.induct)
  case (1 r key start i fd cc)
  show ?case
  proof (cases "i < capacity (hdr r)")
    case True
    note IH = "1.IH"[OF True refl refl refl]
    have s: "0 < i + 1" "i + 1 \<le> capacity (hdr r)"
      using True unat_succ_less[OF True] succ_le_of_less[OF True]
      by (simp_all add: word_less_nat_alt)
    show ?thesis
      using "1.prems" True IH s
      by (subst find_slot_loop.simps, subst probe_loop.simps)
        (auto simp: Let_def option.map_comp o_def algebra_simps)
  next
    case False
    with "1.prems" have "i = capacity (hdr r)" by simp
    then show ?thesis
      by (subst find_slot_loop.simps, subst probe_loop.simps) (simp add: option.map_ident)
  qed
qed

text \<open>The number of extra slots a search inspects, as the loops count it.\<close>

abbreviation found :: "region \<Rightarrow> string \<Rightarrow> scan_result" where
  "found r k \<equiv> search (cap r) (home r) (view r) k"

definition extra :: "region \<Rightarrow> string \<Rightarrow> u32" where
  "extra r k = of_nat (extra_visits (cap r) (found r k))"

lemma exit_count_search:
  "layout_ok r \<Longrightarrow> exit_count (probe_loop r key (start_of r key) 0) = extra r (cstr key)"
  by (simp add: probe_loop_search exit_of_def extra_def extra_visits_def split: scan_result.split)

lemma find_slot_count:
  assumes "layout_ok r"
  shows "snd (find_slot_internal (Some r) (Some key) cc) =
     map_option (\<lambda>c. c + extra r (cstr key)) cc"
proof -
  have c: "0 < capacity (hdr r)"
    using layout_cap_pos[OF assms] by (simp add: word_less_nat_alt)
  then have one: "1 \<le> capacity (hdr r)" using succ_le_of_less[OF c] by simp
  note step = find_slot_loop_count[OF assms, of 1, simplified, OF one]
  have "snd (find_slot_loop r key (start_of r key) 0 (- 1) cc) =
     map_option (\<lambda>c. c + exit_count (probe_loop r key (start_of r key) 0)) cc"
    using c step by (subst find_slot_loop.simps, subst probe_loop.simps)
      (auto simp: Let_def option.map_ident)
  with assms show ?thesis by (simp add: find_slot_internal_def exit_count_search)
qed

lemma find_slot_result:
  assumes "layout_ok r"
  shows "fst (find_slot_internal (Some r) (Some key) cc)
           = insert_slot r (cstr key) 0 (found r (cstr key))"
  using find_slot_loop_eq[OF assms, of 0 key "- 1" cc]
  by (simp add: find_slot_internal_def search_visit insert_slot_def split: scan_result.split)

text \<open>
  What the insertion search promises.  Either every slot is occupied by another key and the
  result is negative, or the result is the slot of the key, or else a reusable slot: then no
  slot holds the key, and in both cases no free slot precedes it in the probe sequence.
\<close>

definition usable_slot :: "region \<Rightarrow> string \<Rightarrow> nat \<Rightarrow> bool" where
  "usable_slot r k p \<longleftrightarrow>
     p < cap r \<and>
     (view r p = Held k \<or>
      (view r p = Free \<or> view r p = Tomb) \<and> (\<forall>q<cap r. view r q \<noteq> Held k)) \<and>
     (\<forall>j<ring_dist (cap r) (home r k) p. view r (ring_pos (cap r) (home r k) j) \<noteq> Free)"

definition full_without :: "region \<Rightarrow> string \<Rightarrow> bool" where
  "full_without r k \<longleftrightarrow> (\<forall>p<cap r. \<exists>k'. view r p = Held k' \<and> k' \<noteq> k)"

lemma usable_visit:
  assumes wf: "table_wf r" and j: "j < cap r"
    and path: "\<And>m. m < j \<Longrightarrow> visit r k m \<noteq> Free"
    and at: "visit r k j = Held k \<or>
      (visit r k j = Free \<or> visit r k j = Tomb) \<and> (\<forall>q<cap r. view r q \<noteq> Held k)"
  shows "usable_slot r k (ring_pos (cap r) (home r k) j)"
proof -
  have lay: "layout_ok r" using wf by (rule layout_wf)
  have d: "ring_dist (cap r) (home r k) (ring_pos (cap r) (home r k) j) = j"
    using home_less_cap[OF lay] j by (rule ring_dist_pos)
  show ?thesis
    using path at layout_cap_pos[OF lay] by (simp add: usable_slot_def d visit_def)
qed

lemma not_full_Tomb:
  assumes lay: "layout_ok r" and t: "visit r k m = Tomb \<or> visit r k m = Free"
  shows "\<not> full_without r k"
  using t layout_cap_pos[OF lay] unfolding full_without_def visit_def
  by (metis ring_pos_less slot_view.distinct(3,5))

lemma tomb_or_cases:
  obtains (tomb) m where "i \<le> m" "m < j" "visit r k m = Tomb" "tomb_or r k i j d = slot_word r k m"
  | (none) "\<And>m. i \<le> m \<Longrightarrow> m < j \<Longrightarrow> visit r k m \<noteq> Tomb" "tomb_or r k i j d = d"
proof (cases "find (\<lambda>m. visit r k m = Tomb) [i..<j]")
  case None
  show ?thesis
  proof (rule none)
    show "tomb_or r k i j d = d" using None by (simp add: tomb_or_def)
    show "visit r k m \<noteq> Tomb" if "i \<le> m" "m < j" for m
      using None that by (auto simp: find_None_iff)
  qed
next
  case (Some m)
  then have "m \<in> set [i..<j]" "visit r k m = Tomb"
    by (auto simp: find_Some_iff in_set_conv_nth)
  with Some show ?thesis by (intro tomb) (auto simp: tomb_or_def)
qed

text \<open>A slot visited before the search gives up is usable when it ends the search or is a tombstone.\<close>

lemma usable_passed:
  assumes wf: "table_wf r" and p: "passed (visit r k) k 0 j" and m: "m \<le> j" "m < cap r"
    and at: "visit r k m = Tomb \<or> visit r k m = Free"
    and no: "\<forall>q<cap r. view r q \<noteq> Held k"
  shows "\<not> sint (slot_word r k m) < 0 \<and> usable_slot r k (unat (slot_word r k m)) \<and>
         \<not> full_without r k"
proof -
  have lay: "layout_ok r" using wf by (rule layout_wf)
  have "usable_slot r k (ring_pos (cap r) (home r k) m)"
    using p m at no by (intro usable_visit[OF wf]) (auto simp: passed_def)
  then show ?thesis
    using unat_slot_word[OF lay] slot_word_nonneg[OF lay] not_full_Tomb[OF lay at] by simp
qed

lemma exhausted_full:
  assumes wf: "table_wf r" and p: "passed (visit r k) k 0 (cap r)"
    and none: "\<And>m. m < cap r \<Longrightarrow> visit r k m \<noteq> Tomb"
  shows "full_without r k"
  unfolding full_without_def
proof (intro allI impI)
  fix q assume q: "q < cap r"
  have lay: "layout_ok r" using wf by (rule layout_wf)
  let ?j = "ring_dist (cap r) (home r k) q"
  have "visit r k ?j = view r q"
    using home_less_cap[OF lay] q by (simp add: visit_def ring_pos_dist)
  moreover have "?j < cap r" using layout_cap_pos[OF lay] by simp
  ultimately show "\<exists>k'. view r q = Held k' \<and> k' \<noteq> k"
    using none p by (cases "view r q") (auto simp: passed_def)
qed

lemma find_slot_spec:
  assumes wf: "table_wf r" and res: "fst (find_slot_internal (Some r) (Some key) cc) = sl"
  shows "sint sl < 0 \<and> full_without r (cstr key) \<or>
         \<not> sint sl < 0 \<and> usable_slot r (cstr key) (unat sl) \<and> \<not> full_without r (cstr key)"
proof -
  let ?k = "cstr key"
  have lay: "layout_ok r" using wf by (rule layout_wf)
  have n: "0 < cap r" by (rule layout_cap_pos[OF lay])
  have sl: "sl = insert_slot r ?k 0 (found r ?k)"
    using find_slot_result[OF lay] res by metis
  note fails = tbl.search_fails[OF wf, of ?k]
  show ?thesis
  proof (cases "found r ?k")
    case (Found j)
    then have j: "j < cap r" "visit r ?k j = Held ?k" and p: "passed (visit r ?k) ?k 0 j"
      by (auto simp: search_visit dest: scan_FoundD)
    have "usable_slot r ?k (ring_pos (cap r) (home r ?k) j)"
      using wf j p by (intro usable_visit) (auto simp: passed_def)
    moreover have "\<not> full_without r ?k"
      using j n unfolding full_without_def visit_def by (metis ring_pos_less slot_view.inject)
    ultimately show ?thesis
      using sl Found unat_slot_word[OF lay] slot_word_nonneg[OF lay] by (simp add: insert_slot_def)
  next
    case (Stopped j)
    then have j: "j < cap r" "visit r ?k j = Free" and p: "passed (visit r ?k) ?k 0 j"
      by (auto simp: search_visit dest: scan_StoppedD)
    have no: "\<forall>q<cap r. view r q \<noteq> Held ?k" using fails Stopped by auto
    show ?thesis
      using usable_passed[OF wf p _ _ _ no] j sl Stopped
      by (cases rule: tomb_or_cases[of 0 j r ?k "slot_word r ?k j"]) (auto simp: insert_slot_def)
  next
    case Exhausted
    then have p: "passed (visit r ?k) ?k 0 (cap r)"
      by (auto simp: search_visit dest: scan_ExhaustedD)
    have no: "\<forall>q<cap r. view r q \<noteq> Held ?k" using fails Exhausted by auto
    show ?thesis
      using usable_passed[OF wf p _ _ _ no] exhausted_full[OF wf p] sl Exhausted
      by (cases rule: tomb_or_cases[of 0 "cap r" r ?k "- 1"]) (auto simp: insert_slot_def)
  qed
qed

lemma full_without_occupied:
  assumes "layout_ok r" "full_without r k"
  shows "count_if occupied (table r) = cap r"
  using assms count_if_full[of occupied "table r"]
  by (auto simp: full_without_def view_def)

end
