(* ===== verification/Maintenance.thy ===== *)
theory Maintenance
  imports Search "HOL-Library.Product_Lexorder"
begin

text \<open>
  The writes to the table of \<open>src/cache_engine.cpp\<close>: \<open>remove_entry\<close>, the eviction of the oldest
  write, the reclamation of expired entries, and the store at the end of \<open>cache_put_ttl\<close> and of
  \<open>cache_update\<close>.  Each keeps the table well-formed and has its effect on the abstract map.
\<close>

section \<open>The operations\<close>

definition tombstone :: "CacheEntry \<Rightarrow> CacheEntry" where
  "tombstone e = e\<lparr>slot_state := DELETED, slot_key := (slot_key e)[0 := NUL],
     slot_value := (slot_value e)[0 := NUL], timestamp := 0, ttl_seconds := 0\<rparr>"

definition remove_entry :: "region \<Rightarrow> nat \<Rightarrow> region" where
  "remove_entry r p =
     (let r = set_entry r p (tombstone (slots r ! p))
      in if 0 < entry_count (hdr r)
         then r\<lparr>hdr := (hdr r)\<lparr>entry_count := entry_count (hdr r) - 1\<rparr>\<rparr>
         else r)"

text \<open>The loop of \<open>evict_oldest_write\<close>: the index and the timestamp of the oldest entry so far.\<close>

function evict_loop :: "region \<Rightarrow> u32 \<Rightarrow> i32 \<Rightarrow> u64 \<Rightarrow> i32" where
  "evict_loop r i oldest_idx oldest_ts =
     (if i < capacity (hdr r) then
        let entry = entry_at r i
        in if slot_state entry = OCCUPIED \<and> (oldest_idx = - 1 \<or> timestamp entry < oldest_ts)
           then evict_loop r (i + 1) i (timestamp entry)
           else evict_loop r (i + 1) oldest_idx oldest_ts
      else oldest_idx)"
  by pat_completeness auto
termination
  by (relation "measure (\<lambda>(r, i, oi, ot). cap r - unat i)")
    (auto simp: unat_succ_less word_less_nat_alt)

definition evict_oldest_write :: "region \<Rightarrow> bool \<times> region" where
  "evict_oldest_write r =
     (let oldest_idx = evict_loop r 0 (- 1) (- 1)
      in if oldest_idx = - 1 then (False, r)
         else (True, remove_entry r (entry_pos (hdr r) oldest_idx)))"

lemma capacity_remove_entry [simp]: "capacity (hdr (remove_entry r p)) = capacity (hdr r)"
  by (simp add: remove_entry_def set_entry_def Let_def)

function reclaim_loop :: "region \<Rightarrow> u64 \<Rightarrow> u32 \<Rightarrow> region" where
  "reclaim_loop r now i =
     (if i < capacity (hdr r) then
        let entry = entry_at r i
        in if slot_state entry = OCCUPIED \<and> cache_entry_expired entry now
           then reclaim_loop (remove_entry r (entry_pos (hdr r) i)) now (i + 1)
           else reclaim_loop r now (i + 1)
      else r)"
  by pat_completeness auto
termination
  by (relation "measure (\<lambda>(r, now, i). cap r - unat i)")
    (auto simp: unat_succ_less word_less_nat_alt)

definition reclaim_expired :: "region \<Rightarrow> u64 \<Rightarrow> region" where
  "reclaim_expired r now = reclaim_loop r now 0"

declare evict_loop.simps [simp del] reclaim_loop.simps [simp del]

text \<open>
  The end of \<open>cache_put_ttl\<close>: count a slot that was not occupied, then write every field.
\<close>

definition store_entry :: "region \<Rightarrow> nat \<Rightarrow> char list \<Rightarrow> char list \<Rightarrow> u64 \<Rightarrow> u32 \<Rightarrow> region" where
  "store_entry r p key value now ttl_sec =
     (let entry = slots r ! p;
          r = (if slot_state entry \<noteq> OCCUPIED
               then r\<lparr>hdr := (hdr r)\<lparr>entry_count := entry_count (hdr r) + 1\<rparr>\<rparr> else r)
      in set_entry r p
           \<lparr>slot_state = OCCUPIED,
            slot_key = copy_terminated (slot_key entry) key MAX_KEY_LEN,
            slot_value = copy_terminated (slot_value entry) value MAX_VAL_LEN,
            timestamp = now, ttl_seconds = ttl_sec\<rparr>)"

text \<open>The write of \<open>cache_update\<close>: the value and the timestamp, nothing else.\<close>

definition rewrite_entry :: "region \<Rightarrow> nat \<Rightarrow> char list \<Rightarrow> u64 \<Rightarrow> region" where
  "rewrite_entry r p new_value now =
     (let entry = slots r ! p
      in set_entry r p
           (entry\<lparr>slot_value := copy_terminated (slot_value entry) new_value MAX_VAL_LEN,
                  timestamp := now\<rparr>))"

definition add_collisions :: "region \<Rightarrow> u32 \<Rightarrow> region" where
  "add_collisions r c =
     r\<lparr>hdr := (hdr r)\<lparr>total_collisions := total_collisions (hdr r) + ucast c\<rparr>\<rparr>"

section \<open>Writing one slot\<close>

lemma set_entry_simps [simp]:
  "hdr (set_entry r p e) = hdr r"
  "slots (set_entry r p e) = (slots r)[p := e]"
  by (simp_all add: set_entry_def)

lemma view_set_entry:
  "p < length (slots r) \<Longrightarrow> view (set_entry r p e) = (view r)(p := entry_view e)"
  by (auto simp: view_def nth_list_update)

lemma table_set_entry: "p < cap r \<Longrightarrow> table (set_entry r p e) = (table r)[p := e]"
  by (simp add: table_def take_update_swap)

text \<open>
  A region whose header has the same capacity and data offset has the same geometry; the hash
  of a key depends on the capacity only.
\<close>

lemma home_cong: "capacity (hdr r') = capacity (hdr r) \<Longrightarrow> home r' = home r"
  by (simp add: home_def fun_eq_iff)

lemma layout_ok_cong:
  "layout_ok r \<Longrightarrow> capacity (hdr r') = capacity (hdr r) \<Longrightarrow>
   data_offset (hdr r') = data_offset (hdr r) \<Longrightarrow> length (slots r') = length (slots r)
     \<Longrightarrow> layout_ok r'"
  by (simp add: layout_ok_def)

text \<open>Changes of the counters only.\<close>

lemma table_wf_hdr:
  assumes "table_wf r" "slots r' = slots r" "capacity (hdr r') = capacity (hdr r)"
    "data_offset (hdr r') = data_offset (hdr r)" "entry_count (hdr r') = entry_count (hdr r)"
  shows "table_wf r'" and "abs_map r' = abs_map r"
proof -
  have v: "view r' = view r" and t: "table r' = table r" and h: "home r' = home r"
    using assms by (simp_all add: view_def table_def fun_eq_iff home_def)
  show "table_wf r'"
    using assms v t h by (auto simp: table_wf_def layout_ok_def)
  show "abs_map r' = abs_map r"
    using t by (simp add: abs_map_def fun_eq_iff)
qed

lemma add_collisions_simps [simp]:
  "slots (add_collisions r c) = slots r"
  "capacity (hdr (add_collisions r c)) = capacity (hdr r)"
  "data_offset (hdr (add_collisions r c)) = data_offset (hdr r)"
  "entry_count (hdr (add_collisions r c)) = entry_count (hdr r)"
  "total_hits (hdr (add_collisions r c)) = total_hits (hdr r)"
  "total_misses (hdr (add_collisions r c)) = total_misses (hdr r)"
  "total_collisions (hdr (add_collisions r c)) = total_collisions (hdr r) + ucast c"
  by (simp_all add: add_collisions_def)

lemma wf_add_collisions [wf_intros]: "table_wf r \<Longrightarrow> table_wf (add_collisions r c)"
  and abs_add_collisions [simp]: "table_wf r \<Longrightarrow> abs_map (add_collisions r c) = abs_map r"
  by (rule table_wf_hdr; simp)+

text \<open>
  The general write: slot \<open>p\<close> gets \<open>e\<close>, the count follows, and the view stays well probed.
\<close>

lemma write_slot_wf:
  assumes wf: "table_wf r" and p: "p < cap r"
    and s: "slots r' = (slots r)[p := e]"
    and c: "capacity (hdr r') = capacity (hdr r)"
    and d: "data_offset (hdr r') = data_offset (hdr r)"
    and n: "unat (entry_count (hdr r')) + (if occupied (slots r ! p) then 1 else 0)
             = unat (entry_count (hdr r)) + (if occupied e then 1 else 0)"
    and e: "entry_ok e"
    and ok: "probe_ok (cap r) (home r) ((view r)(p := entry_view e))"
  shows "table_wf r'"
proof -
  have lay: "layout_ok r" and all: "list_all entry_ok (table r)"
    and count: "unat (entry_count (hdr r)) = count_if occupied (table r)"
    using wf by (simp_all add: table_wf_def)
  have t: "table r' = (table r)[p := e]" by (simp add: table_def s c take_update_swap)
  have v: "view r' = (view r)(p := entry_view e)"
    using p layout_cap_le[OF lay] by (auto simp: view_def s nth_list_update)
  have "count_if occupied (table r') + (if occupied (slots r ! p) then 1 else 0)
      = count_if occupied (table r) + (if occupied e then 1 else 0)"
    using count_if_update[of p "table r" occupied e] p lay by (simp add: t)
  with n count have "unat (entry_count (hdr r')) = count_if occupied (table r')" by simp
  moreover have "list_all entry_ok (table r')"
    using all e set_update_subset_insert[of "table r" p e] by (auto simp: t list_all_iff)
  moreover have "layout_ok r'" by (rule layout_ok_cong[OF lay]) (simp_all add: s c d)
  moreover have "probe_ok (cap r') (home r') (view r')" using ok by (simp add: c v home_cong[OF c])
  ultimately show ?thesis by (simp add: table_wf_def)
qed

text \<open>Its effect on the map: the old key of the slot is gone, the new one is there.\<close>

definition forget :: "string slot_view \<Rightarrow> (string \<Rightarrow> item option) \<Rightarrow> string \<Rightarrow> item option" where
  "forget v m k = (if v = Held k then None else m k)"

definition learn :: "CacheEntry \<Rightarrow> (string \<Rightarrow> item option) \<Rightarrow> string \<Rightarrow> item option" where
  "learn e m k = (if entry_view e = Held k then Some (entry_item e) else m k)"

lemma write_slot_abs:
  assumes wf: "table_wf r" "table_wf r'" and p: "p < cap r"
    and s: "slots r' = (slots r)[p := e]" and c: "capacity (hdr r') = capacity (hdr r)"
  shows "abs_map r' = learn e (forget (view r p) (abs_map r))"
proof (rule abs_map_eqI[OF wf(2)])
  have lay: "layout_ok r" using wf(1) by (rule layout_wf)
  have pl: "p < length (slots r)" using p layout_cap_le[OF lay] by simp
  then have v: "view r' = (view r)(p := entry_view e)"
    by (auto simp: view_def s nth_list_update)
  fix k
  { fix q assume q: "q < cap r'" "view r' q = Held k"
    show "learn e (forget (view r p) (abs_map r)) k = Some (entry_item (slots r' ! q))"
    proof (cases "q = p")
      case True
      with q v have "entry_view e = Held k" by simp
      with True pl show ?thesis by (simp add: s learn_def del: entry_view_cases)
    next
      case False
      with q v c have r: "q < cap r" "view r q = Held k" by auto
      have "entry_view e \<noteq> Held k"
        using tbl.view_unique[OF wf(2), of p q k] q p False v c by auto
      moreover have "view r p \<noteq> Held k"
        using tbl.view_unique[OF wf(1), of p q k] r p False by auto
      moreover have "slots r' ! q = slots r ! q" using False by (simp add: s)
      ultimately show ?thesis using abs_map_SomeI[OF wf(1) r]
        by (simp add: learn_def forget_def del: entry_view_cases)
    qed }
  assume no: "\<And>q. q < cap r' \<Longrightarrow> view r' q \<noteq> Held k"
  have ne: "entry_view e \<noteq> Held k" using no[of p] p c v by auto
  have "abs_map r k = None" if "view r p \<noteq> Held k"
  proof (rule abs_map_NoneI[OF lay])
    show "view r q \<noteq> Held k" if "q < cap r" for q
      using no[of q] that c v \<open>view r p \<noteq> Held k\<close> by (cases "q = p") auto
  qed
  with ne show "learn e (forget (view r p) (abs_map r)) k = None"
    by (auto simp: learn_def forget_def simp del: entry_view_cases)
qed

section \<open>Removing an entry\<close>

lemma remove_entry_simps [simp]:
  "slots (remove_entry r p) = (slots r)[p := tombstone (slots r ! p)]"
  "data_offset (hdr (remove_entry r p)) = data_offset (hdr r)"
  "total_hits (hdr (remove_entry r p)) = total_hits (hdr r)"
  "total_misses (hdr (remove_entry r p)) = total_misses (hdr r)"
  "total_collisions (hdr (remove_entry r p)) = total_collisions (hdr r)"
  by (simp_all add: remove_entry_def Let_def)

lemma entry_view_tombstone [simp]: "entry_view (tombstone e) = Tomb"
  by (simp add: tombstone_def)

lemma entry_ok_tombstone: "entry_ok e \<Longrightarrow> entry_ok (tombstone e)"
  by (simp add: entry_ok_def tombstone_def)

lemma wf_entry_ok: "table_wf r \<Longrightarrow> p < cap r \<Longrightarrow> entry_ok (slots r ! p)"
  by (metis layout_wf length_table list_all_length table_nth table_wf_def)

lemma wf_count: "table_wf r \<Longrightarrow> unat (entry_count (hdr r)) = count_if occupied (table r)"
  by (simp add: table_wf_def)

lemma wf_entry_count: "table_wf r \<Longrightarrow> unat (entry_count (hdr r)) \<le> cap r"
  using count_if_le[of occupied "table r"] by (simp add: wf_count layout_wf)

lemma wf_remove_entry [wf_intros]:
  assumes wf: "table_wf r" and p: "p < cap r" and o: "occupied (slots r ! p)"
  shows "table_wf (remove_entry r p)"
proof (rule write_slot_wf[OF wf p remove_entry_simps(1)])
  have lay: "layout_ok r" using wf by (rule layout_wf)
  have pos: "0 < unat (entry_count (hdr r))"
    using wf_count[OF wf] count_if_pos[of p "table r" occupied] p o lay by simp
  then have "entry_count (hdr (remove_entry r p)) = entry_count (hdr r) - 1"
    by (simp add: remove_entry_def Let_def word_less_nat_alt)
  moreover have "unat (entry_count (hdr r) - 1) = unat (entry_count (hdr r)) - 1"
    using pos by (simp add: unat_sub word_le_nat_alt)
  ultimately show "unat (entry_count (hdr (remove_entry r p)))
      + (if occupied (slots r ! p) then 1 else 0)
    = unat (entry_count (hdr r)) + (if occupied (tombstone (slots r ! p)) then 1 else 0)"
    using pos o by (simp add: tombstone_def)
  show "entry_ok (tombstone (slots r ! p))"
    using wf_entry_ok[OF wf p] by (rule entry_ok_tombstone)
  show "probe_ok (cap r) (home r) ((view r)(p := entry_view (tombstone (slots r ! p))))"
  proof (rule probe_ok_tombs)
    show "probe_ok (cap r) (home r) (view r)" using wf by (simp add: table_wf_def)
    show "0 < cap r" by (rule layout_cap_pos[OF lay])
  qed simp
qed simp_all

lemma abs_remove_entry:
  assumes wf: "table_wf r" and p: "p < cap r" and o: "occupied (slots r ! p)"
  shows "abs_map (remove_entry r p) = (abs_map r)(cstr (slot_key (slots r ! p)) := None)"
proof -
  have "view r p = Held (cstr (slot_key (slots r ! p)))" using o by (simp add: view_def)
  then show ?thesis
    using write_slot_abs[OF wf wf_remove_entry[OF wf p o] p remove_entry_simps(1)]
    by (auto simp: learn_def forget_def tombstone_def fun_eq_iff)
qed

section \<open>Storing an entry\<close>

definition put_entry :: "CacheEntry \<Rightarrow> char list \<Rightarrow> char list \<Rightarrow> u64 \<Rightarrow> u32 \<Rightarrow> CacheEntry" where
  "put_entry entry key value now ttl_sec =
     \<lparr>slot_state = OCCUPIED,
      slot_key = copy_terminated (slot_key entry) key MAX_KEY_LEN,
      slot_value = copy_terminated (slot_value entry) value MAX_VAL_LEN,
      timestamp = now, ttl_seconds = ttl_sec\<rparr>"

lemma store_entry_simps [simp]:
  "slots (store_entry r p key value now ttl)
     = (slots r)[p := put_entry (slots r ! p) key value now ttl]"
  "capacity (hdr (store_entry r p key value now ttl)) = capacity (hdr r)"
  "data_offset (hdr (store_entry r p key value now ttl)) = data_offset (hdr r)"
  "total_hits (hdr (store_entry r p key value now ttl)) = total_hits (hdr r)"
  "total_misses (hdr (store_entry r p key value now ttl)) = total_misses (hdr r)"
  "total_collisions (hdr (store_entry r p key value now ttl)) = total_collisions (hdr r)"
  "entry_count (hdr (store_entry r p key value now ttl))
     = (if occupied (slots r ! p) then entry_count (hdr r) else entry_count (hdr r) + 1)"
  by (simp_all add: store_entry_def put_entry_def Let_def)

text \<open>Lengths the argument checks of the engine guarantee.\<close>

definition key_fits :: "char list \<Rightarrow> bool" where
  "key_fits key \<longleftrightarrow> cstr key \<noteq> [] \<and> strlen key < MAX_KEY_LEN"

definition value_fits :: "char list \<Rightarrow> bool" where
  "value_fits value \<longleftrightarrow> strlen value < MAX_VAL_LEN"

lemma copy_key:
  "entry_ok e \<Longrightarrow> key_fits key \<Longrightarrow>
   cstr (copy_terminated (slot_key e) key MAX_KEY_LEN) = cstr key \<and>
   length (copy_terminated (slot_key e) key MAX_KEY_LEN) = MAX_KEY_LEN \<and>
   terminated (copy_terminated (slot_key e) key MAX_KEY_LEN)"
  by (auto simp: entry_ok_def key_fits_def MAX_KEY_LEN_def)

lemma copy_value:
  "entry_ok e \<Longrightarrow> value_fits value \<Longrightarrow>
   cstr (copy_terminated (slot_value e) value MAX_VAL_LEN) = cstr value \<and>
   length (copy_terminated (slot_value e) value MAX_VAL_LEN) = MAX_VAL_LEN \<and>
   terminated (copy_terminated (slot_value e) value MAX_VAL_LEN)"
  by (auto simp: entry_ok_def value_fits_def MAX_VAL_LEN_def)

lemma put_entry_ok:
  "entry_ok e \<Longrightarrow> key_fits key \<Longrightarrow> value_fits value \<Longrightarrow>
   entry_ok (put_entry e key value now ttl) \<and>
   entry_view (put_entry e key value now ttl) = Held (cstr key) \<and>
   entry_item (put_entry e key value now ttl)
     = \<lparr>item_value = cstr value, item_time = now, item_ttl = ttl\<rparr>"
  using copy_key[of e key] copy_value[of e "value"]
  by (simp add: put_entry_def entry_ok_def entry_item_def key_fits_def)

lemma usable_fill:
  assumes wf: "table_wf r" and u: "usable_slot r k p"
  shows "probe_ok (cap r) (home r) ((view r)(p := Held k))"
proof (rule probe_ok_fill)
  have lay: "layout_ok r" using wf by (rule layout_wf)
  show "probe_ok (cap r) (home r) (view r)" using wf by (simp add: table_wf_def)
  show "0 < cap r" by (rule layout_cap_pos[OF lay])
  show "p < cap r" using u by (simp add: usable_slot_def)
  show "view r (ring_pos (cap r) (home r k) j) \<noteq> Free"
    if "j < ring_dist (cap r) (home r k) p" for j
    using u that by (simp add: usable_slot_def)
  show "q = p" if "q < cap r" "view r q = Held k" for q
    using u that tbl.view_unique[OF wf] unfolding usable_slot_def by blast
qed

lemma wf_store_entry [wf_intros]:
  assumes wf: "table_wf r" and u: "usable_slot r (cstr key) p"
    and fits: "key_fits key" "value_fits value"
  shows "table_wf (store_entry r p key value now ttl)"
proof -
  have lay: "layout_ok r" using wf by (rule layout_wf)
  have p: "p < cap r" using u by (simp add: usable_slot_def)
  note e = put_entry_ok[OF wf_entry_ok[OF wf p] fits, of now ttl]
  have o: "occupied (put_entry (slots r ! p) key value now ttl)" by (simp add: put_entry_def)
  have "unat (entry_count (hdr r) + 1) = unat (entry_count (hdr r)) + 1"
    if "\<not> occupied (slots r ! p)"
  proof -
    have "count_if occupied (table r) < cap r"
      using count_if_less[of p "table r" occupied] that p lay by simp
    with wf_count[OF wf] layout_cap_bound[OF lay] show ?thesis
      by (subst unat_add_small) simp_all
  qed
  then show ?thesis
    by (intro write_slot_wf[OF wf p store_entry_simps(1)])
      (use e o usable_fill[OF wf u] in \<open>simp_all del: entry_view_cases\<close>)
qed

lemma abs_store_entry:
  assumes wf: "table_wf r" and u: "usable_slot r (cstr key) p"
    and fits: "key_fits key" "value_fits value"
  shows "abs_map (store_entry r p key value now ttl) = (abs_map r)
     (cstr key \<mapsto> \<lparr>item_value = cstr value, item_time = now, item_ttl = ttl\<rparr>)"
proof -
  have p: "p < cap r" using u by (simp add: usable_slot_def)
  note e = put_entry_ok[OF wf_entry_ok[OF wf p] fits, of now ttl]
  have "view r p = Held (cstr key) \<or> (\<forall>k. view r p \<noteq> Held k)"
    using u by (auto simp: usable_slot_def)
  then show ?thesis
    using write_slot_abs[OF wf wf_store_entry[OF wf u fits] p store_entry_simps(1)] e
    by (auto simp: learn_def forget_def fun_eq_iff simp del: entry_view_cases)
qed

text \<open>The write of an update, at the entry that holds the key.\<close>

definition update_entry :: "CacheEntry \<Rightarrow> char list \<Rightarrow> u64 \<Rightarrow> CacheEntry" where
  "update_entry entry new_value now =
     entry\<lparr>slot_value := copy_terminated (slot_value entry) new_value MAX_VAL_LEN,
           timestamp := now\<rparr>"

lemma rewrite_entry_simps [simp]:
  "slots (rewrite_entry r p v now) = (slots r)[p := update_entry (slots r ! p) v now]"
  "hdr (rewrite_entry r p v now) = hdr r"
  by (simp_all add: rewrite_entry_def update_entry_def Let_def)

lemma update_entry_ok:
  "entry_ok e \<Longrightarrow> value_fits v \<Longrightarrow>
   entry_ok (update_entry e v now) \<and> entry_view (update_entry e v now) = entry_view e \<and>
   entry_item (update_entry e v now)
     = (entry_item e)\<lparr>item_value := cstr v, item_time := now\<rparr>"
  using copy_value[of e v]
  by (simp add: update_entry_def entry_ok_def entry_item_def entry_view_def split: SlotState.split)

lemma wf_rewrite_entry [wf_intros]:
  assumes wf: "table_wf r" and p: "p < cap r" and v: "value_fits v"
  shows "table_wf (rewrite_entry r p v now)"
proof (rule write_slot_wf[OF wf p rewrite_entry_simps(1)])
  note e = update_entry_ok[OF wf_entry_ok[OF wf p] v, of now]
  show "entry_ok (update_entry (slots r ! p) v now)" using e by simp
  have "(view r)(p := entry_view (update_entry (slots r ! p) v now)) = view r"
    using e by (simp add: fun_eq_iff view_def)
  then show "probe_ok (cap r) (home r)
      ((view r)(p := entry_view (update_entry (slots r ! p) v now)))"
    using wf by (simp add: table_wf_def)
qed (simp_all add: update_entry_def)

lemma abs_rewrite_entry:
  assumes wf: "table_wf r" and p: "p < cap r" and k: "view r p = Held k" and v: "value_fits v"
  shows "abs_map (rewrite_entry r p v now) = (abs_map r)
     (k \<mapsto> (entry_item (slots r ! p))\<lparr>item_value := cstr v, item_time := now\<rparr>)"
proof -
  note e = update_entry_ok[OF wf_entry_ok[OF wf p] v, of now]
  have "entry_view (slots r ! p) = Held k" using k by (simp add: view_def)
  with e k show ?thesis
    using write_slot_abs[OF wf wf_rewrite_entry[OF wf p v] p rewrite_entry_simps(1)]
    by (auto simp: learn_def forget_def fun_eq_iff simp del: entry_view_cases)
qed

section \<open>Eviction of the oldest write\<close>

text \<open>
  The victim among the first \<open>n\<close> slots: occupied, and least in the order of timestamps with
  the slot index breaking ties.
\<close>

definition oldest_below :: "region \<Rightarrow> nat \<Rightarrow> nat \<Rightarrow> bool" where
  "oldest_below r n p \<longleftrightarrow>
     p < n \<and> occupied (slots r ! p) \<and>
     (\<forall>q<n. occupied (slots r ! q) \<longrightarrow>
        (timestamp (slots r ! p), p) \<le> (timestamp (slots r ! q), q))"

lemma oldest_below_unique: "oldest_below r n p \<Longrightarrow> oldest_below r n q \<Longrightarrow> p = q"
  unfolding oldest_below_def by (metis order_antisym prod.inject)

text \<open>What the loop has found when it reaches index \<open>i\<close>.\<close>

definition evict_state :: "region \<Rightarrow> nat \<Rightarrow> i32 \<Rightarrow> u64 \<Rightarrow> bool" where
  "evict_state r n idx ts \<longleftrightarrow>
     (if idx = - 1 then \<forall>q<n. \<not> occupied (slots r ! q)
      else oldest_below r n (unat idx) \<and> ts = timestamp (slots r ! unat idx))"

lemma evict_state_step:
  assumes st: "evict_state r (unat i) idx ts" and i: "i \<noteq> - 1"
  shows "if occupied (slots r ! unat i) \<and> (idx = - 1 \<or> timestamp (slots r ! unat i) < ts)
         then evict_state r (Suc (unat i)) i (timestamp (slots r ! unat i))
         else evict_state r (Suc (unat i)) idx ts"
  using st i by (auto simp: evict_state_def oldest_below_def less_Suc_eq not_less less_eq_prod_def
      split: if_splits)

lemma evict_loop_state:
  assumes "layout_ok r" "unat i \<le> cap r" "evict_state r (unat i) idx ts"
  shows "\<exists>ts'. evict_state r (cap r) (evict_loop r i idx ts) ts'"
  using assms
proof (induction r i idx ts rule: evict_loop.induct)
  case (1 r i idx ts)
  show ?case
  proof (cases "i < capacity (hdr r)")
    case True
    then have n: "unat i < cap r" by (simp add: word_less_nat_alt)
    have e: "entry_at r i = slots r ! unat i" using "1.prems"(1) n by (rule entry_at_eq)
    have "unat i < 2 ^ 31" using n layout_cap_bound[OF "1.prems"(1)] by simp
    then have i: "i \<noteq> - 1" by (rule small_not_minus_one)
    have u: "unat (i + 1) = Suc (unat i)" using True by (rule unat_succ_less)
    note step = evict_state_step[OF "1.prems"(3) i]
    show ?thesis
    proof (cases "occupied (slots r ! unat i) \<and> (idx = - 1 \<or> timestamp (slots r ! unat i) < ts)")
      case upd: True
      note IH = "1.IH"(1)[OF True refl, unfolded e, OF upd]
      show ?thesis
        using IH step upd n u "1.prems"(1) True e
        by (subst evict_loop.simps) (simp add: Let_def)
    next
      case keep: False
      note IH = "1.IH"(2)[OF True refl, unfolded e, OF keep]
      show ?thesis
        using IH step keep n u "1.prems"(1) True e
        by (subst evict_loop.simps) (auto simp: Let_def)
    qed
  next
    case False
    with "1.prems" have "unat i = cap r" by (simp add: word_less_nat_alt)
    with False "1.prems"(3) show ?thesis by (subst evict_loop.simps) auto
  qed
qed

lemma evict_loop_spec:
  assumes "layout_ok r"
  shows "evict_loop r 0 (- 1) (- 1) = - 1 \<and> count_if occupied (table r) = 0 \<or>
         evict_loop r 0 (- 1) (- 1) \<noteq> - 1 \<and>
         oldest_below r (cap r) (unat (evict_loop r 0 (- 1) (- 1)))"
proof -
  obtain ts where "evict_state r (cap r) (evict_loop r 0 (- 1) (- 1)) ts"
    using evict_loop_state[OF assms, of 0 "- 1" "- 1"] by (auto simp: evict_state_def)
  then show ?thesis
    using assms by (auto simp: evict_state_def count_if_zero split: if_splits)
qed

lemma evict_oldest_write_spec:
  assumes wf: "table_wf r" and occ: "0 < count_if occupied (table r)"
  obtains p where "oldest_below r (cap r) p" "evict_oldest_write r = (True, remove_entry r p)"
proof -
  have lay: "layout_ok r" using wf by (rule layout_wf)
  let ?i = "evict_loop r 0 (- 1) (- 1)"
  from evict_loop_spec[OF lay] occ have i: "?i \<noteq> - 1" "oldest_below r (cap r) (unat ?i)" by auto
  then have "entry_pos (hdr r) ?i = unat ?i"
    using lay by (intro entry_pos_eq) (auto simp: oldest_below_def)
  with i show ?thesis by (intro that[of "unat ?i"]) (simp_all add: evict_oldest_write_def Let_def)
qed

section \<open>Reclamation of expired entries\<close>

definition reclaimed :: "u64 \<Rightarrow> CacheEntry \<Rightarrow> CacheEntry" where
  "reclaimed now e = (if occupied e \<and> cache_entry_expired e now then tombstone e else e)"

definition reclaimed_from :: "region \<Rightarrow> u64 \<Rightarrow> nat \<Rightarrow> region \<Rightarrow> bool" where
  "reclaimed_from r now i r' \<longleftrightarrow>
     table_wf r' \<and> (hdr r')\<lparr>entry_count := 0\<rparr> = (hdr r)\<lparr>entry_count := 0\<rparr> \<and>
     length (slots r') = length (slots r) \<and>
     (\<forall>p. slots r' ! p = (if i \<le> p \<and> p < cap r then reclaimed now (slots r ! p) else slots r ! p))"

lemma reclaimed_from_end: "table_wf r \<Longrightarrow> cap r \<le> i \<Longrightarrow> reclaimed_from r now i r"
  by (auto simp: reclaimed_from_def)

lemma reclaimed_from_keep:
  "reclaimed_from r now (Suc i) r' \<Longrightarrow> reclaimed now (slots r ! i) = slots r ! i
     \<Longrightarrow> reclaimed_from r now i r'"
  unfolding reclaimed_from_def
  by (elim conjE, intro conjI allI) (auto simp: not_less_eq_eq le_antisym)

lemma reclaimed_from_remove:
  assumes wf: "table_wf r" and i: "i < cap r"
    and e: "reclaimed now (slots r ! i) = tombstone (slots r ! i)"
    and r': "reclaimed_from (remove_entry r i) now (Suc i) r'"
  shows "reclaimed_from r now i r'"
proof -
  have "(hdr (remove_entry r i))\<lparr>entry_count := 0\<rparr> = (hdr r)\<lparr>entry_count := 0\<rparr>"
    by (simp add: remove_entry_def Let_def)
  moreover have "i < length (slots r)"
    using i layout_cap_le[OF layout_wf[OF wf]] by simp
  then have "slots r' ! p = (if i \<le> p \<and> p < cap r then reclaimed now (slots r ! p) else slots r ! p)"
    for p
    using r' i e unfolding reclaimed_from_def
    by (cases "p = i") (auto simp: Suc_le_eq)
  ultimately show ?thesis using r' by (simp add: reclaimed_from_def)
qed

lemma reclaim_loop_spec:
  assumes "table_wf r" "unat i \<le> cap r"
  shows "reclaimed_from r now (unat i) (reclaim_loop r now i)"
  using assms
proof (induction r now i rule: reclaim_loop.induct)
  case (1 r now i)
  have lay: "layout_ok r" using "1.prems"(1) by (rule layout_wf)
  show ?case
  proof (cases "i < capacity (hdr r)")
    case True
    then have n: "unat i < cap r" by (simp add: word_less_nat_alt)
    have e: "entry_at r i = slots r ! unat i" using lay n by (rule entry_at_eq)
    have pos: "entry_pos (hdr r) i = unat i" using lay n by (rule entry_pos_eq)
    have u: "unat (i + 1) = Suc (unat i)" using True by (rule unat_succ_less)
    show ?thesis
    proof (cases "occupied (slots r ! unat i) \<and> cache_entry_expired (slots r ! unat i) now")
      case exp: True
      have "table_wf (remove_entry r (unat i))"
        using "1.prems"(1) n exp by (blast intro: wf_remove_entry)
      then have "reclaimed_from (remove_entry r (unat i)) now (Suc (unat i))
          (reclaim_loop (remove_entry r (unat i)) now (i + 1))"
        using "1.IH"(1)[OF True refl, unfolded e pos, OF exp] n u by simp
      moreover have "reclaimed now (slots r ! unat i) = tombstone (slots r ! unat i)"
        using exp by (simp add: reclaimed_def)
      ultimately have "reclaimed_from r now (unat i)
          (reclaim_loop (remove_entry r (unat i)) now (i + 1))"
        using "1.prems"(1) n by (blast intro: reclaimed_from_remove)
      then show ?thesis
        unfolding reclaim_loop.simps[of r now i] using True exp e pos by (simp add: Let_def)
    next
      case keep: False
      have "reclaimed_from r now (Suc (unat i)) (reclaim_loop r now (i + 1))"
        using "1.IH"(2)[OF True refl, unfolded e, OF keep "1.prems"(1)] n u by simp
      moreover have "reclaimed now (slots r ! unat i) = slots r ! unat i"
        using keep by (auto simp: reclaimed_def)
      ultimately have "reclaimed_from r now (unat i) (reclaim_loop r now (i + 1))"
        by (rule reclaimed_from_keep)
      then show ?thesis
        unfolding reclaim_loop.simps[of r now i] using True keep e by (auto simp: Let_def)
    qed
  next
    case False
    with "1.prems" show ?thesis
      by (subst reclaim_loop.simps) (simp add: word_less_nat_alt reclaimed_from_end)
  qed
qed

definition live_items :: "u64 \<Rightarrow> (string \<Rightarrow> item option) \<Rightarrow> string \<Rightarrow> item option" where
  "live_items now m k =
     (case m k of None \<Rightarrow> None | Some it \<Rightarrow> if item_expired it now then None else Some it)"

lemma reclaim_expired_from: "table_wf r \<Longrightarrow> reclaimed_from r now 0 (reclaim_expired r now)"
  using reclaim_loop_spec[of r 0 now] by (simp add: reclaim_expired_def)

lemma wf_reclaim_expired [wf_intros]: "table_wf r \<Longrightarrow> table_wf (reclaim_expired r now)"
  using reclaim_expired_from by (simp add: reclaimed_from_def)

lemma reclaim_expired_hdr:
  "table_wf r \<Longrightarrow>
   (hdr (reclaim_expired r now))\<lparr>entry_count := 0\<rparr> = (hdr r)\<lparr>entry_count := 0\<rparr>"
  using reclaim_expired_from by (simp add: reclaimed_from_def)

lemma reclaim_expired_frame:
  assumes "table_wf r"
  shows "capacity (hdr (reclaim_expired r now)) = capacity (hdr r)"
    and "total_hits (hdr (reclaim_expired r now)) = total_hits (hdr r)"
    and "total_misses (hdr (reclaim_expired r now)) = total_misses (hdr r)"
    and "total_collisions (hdr (reclaim_expired r now)) = total_collisions (hdr r)"
  using arg_cong[OF reclaim_expired_hdr[OF assms, of now], of capacity]
    arg_cong[OF reclaim_expired_hdr[OF assms, of now], of total_hits]
    arg_cong[OF reclaim_expired_hdr[OF assms, of now], of total_misses]
    arg_cong[OF reclaim_expired_hdr[OF assms, of now], of total_collisions]
  by simp_all

lemma slots_reclaim_expired:
  "table_wf r \<Longrightarrow> p < cap r \<Longrightarrow> slots (reclaim_expired r now) ! p = reclaimed now (slots r ! p)"
  using reclaim_expired_from by (simp add: reclaimed_from_def)

lemma view_reclaim_expired:
  "table_wf r \<Longrightarrow> p < cap r \<Longrightarrow>
   view (reclaim_expired r now) p =
     (if occupied (slots r ! p) \<and> cache_entry_expired (slots r ! p) now then Tomb else view r p)"
  by (simp add: view_def slots_reclaim_expired reclaimed_def)

lemma abs_reclaim_expired:
  assumes wf: "table_wf r"
  shows "abs_map (reclaim_expired r now) = live_items now (abs_map r)"
proof (rule abs_map_eqI[OF wf_reclaim_expired[OF wf]])
  let ?r = "reclaim_expired r now"
  note c = reclaim_expired_frame(1)[OF wf]
  { fix k p assume p: "p < cap ?r" "view ?r p = Held k"
    with c have "p < cap r" by simp
    with p view_reclaim_expired[OF wf, of p now] have v: "view r p = Held k"
      and ne: "\<not> (occupied (slots r ! p) \<and> cache_entry_expired (slots r ! p) now)"
      by (auto split: if_splits)
    then have "\<not> item_expired (entry_item (slots r ! p)) now"
      by (simp add: expired_item view_def)
    then show "live_items now (abs_map r) k = Some (entry_item (slots ?r ! p))"
      using abs_map_SomeI[OF wf \<open>p < cap r\<close> v] slots_reclaim_expired[OF wf \<open>p < cap r\<close>] ne
      by (auto simp: live_items_def reclaimed_def) }
  fix k assume no: "\<And>p. p < cap ?r \<Longrightarrow> view ?r p \<noteq> Held k"
  show "live_items now (abs_map r) k = None"
  proof (cases "abs_map r k")
    case None
    then show ?thesis by (simp add: live_items_def)
  next
    case (Some it)
    then obtain p where p: "p < cap r" "view r p = Held k" "it = entry_item (slots r ! p)"
      using wf by (auto elim: abs_map_SomeD)
    with no[of p] c view_reclaim_expired[OF wf, of p now] have "item_expired it now"
      by (auto simp: expired_item split: if_splits)
    with Some show ?thesis by (simp add: live_items_def)
  qed
qed

text \<open>
  A table that is full of other keys: either some item has expired, and then reclaiming frees a
  slot, or reclaiming changes nothing.
\<close>

lemma reclaim_frees:
  assumes wf: "table_wf r" and ex: "abs_map r k' = Some it" "item_expired it now"
  shows "\<not> full_without (reclaim_expired r now) k"
proof -
  obtain p where p: "p < cap r" "view r p = Held k'" "it = entry_item (slots r ! p)"
    using wf ex(1) by (rule abs_map_SomeD)
  with ex have "occupied (slots r ! p)" "cache_entry_expired (slots r ! p) now"
    by (simp_all add: expired_item view_def)
  with view_reclaim_expired[OF wf p(1), of now] have "view (reclaim_expired r now) p = Tomb"
    by (simp only: simp_thms if_True)
  with p show ?thesis
    unfolding full_without_def reclaim_expired_frame(1)[OF wf]
    by (metis slot_view.distinct(5))
qed

lemma reclaim_nothing:
  assumes wf: "table_wf r" and no: "\<And>k it. abs_map r k = Some it \<Longrightarrow> \<not> item_expired it now"
  shows "view (reclaim_expired r now) p = view r p \<or> \<not> p < cap r"
    and "abs_map (reclaim_expired r now) = abs_map r"
    and "p < cap r \<Longrightarrow> slots (reclaim_expired r now) ! p = slots r ! p"
proof -
  have *: "\<not> cache_entry_expired (slots r ! p) now"
    if "p < cap r" "occupied (slots r ! p)" for p
  proof -
    have "view r p = Held (cstr (slot_key (slots r ! p)))" using that by (simp add: view_def)
    from no[OF abs_map_SomeI[OF wf that(1) this]] show ?thesis by (simp add: expired_item)
  qed
  then show "view (reclaim_expired r now) p = view r p \<or> \<not> p < cap r"
    using view_reclaim_expired[OF wf, of p now] by metis
  from * show "p < cap r \<Longrightarrow> slots (reclaim_expired r now) ! p = slots r ! p"
    by (auto simp: slots_reclaim_expired[OF wf] reclaimed_def)
  show "abs_map (reclaim_expired r now) = abs_map r"
    unfolding abs_reclaim_expired[OF wf]
    by (auto simp: live_items_def fun_eq_iff dest: no split: option.split)
qed

end
