(* ===== verification/Environ.thy ===== *)
theory Environ
  imports Maintenance
begin

text \<open>
  What surrounds the table operations: the calls of the engine to the C library and to the
  pthread lock, and the other processes.  A call's outcome is not computed but asked of an
  environment, a record of functions from the history of events so far; every theorem holds
  for every environment.  Between two critical sections of this process the other processes may
  change the region: \<open>others\<close> gives the region this process finds when it acquires the lock.
\<close>

section \<open>Events, environments and the state\<close>

datatype event =
    Read_lock int          \<comment> \<open>\<open>pthread_rwlock_rdlock\<close> and its result\<close>
  | Write_lock int         \<comment> \<open>\<open>pthread_rwlock_wrlock\<close> and its result\<close>
  | Unlock int             \<comment> \<open>\<open>pthread_rwlock_unlock\<close> and its result\<close>
  | Clock u64              \<comment> \<open>\<open>std::time(nullptr)\<close> and its result\<close>
  | Cerr string            \<comment> \<open>text sent to \<open>std::cerr\<close>\<close>
  | Cout string            \<comment> \<open>text sent to \<open>std::cout\<close>\<close>
  | Perror string          \<comment> \<open>\<open>perror\<close>\<close>
  | Attr_init int          \<comment> \<open>\<open>pthread_rwlockattr_init\<close> and its result\<close>
  | Attr_setpshared int    \<comment> \<open>\<open>pthread_rwlockattr_setpshared\<close> and its result\<close>
  | Attr_destroy           \<comment> \<open>\<open>pthread_rwlockattr_destroy\<close>\<close>
  | Rwlock_init int        \<comment> \<open>\<open>pthread_rwlock_init\<close> and its result\<close>
  | Shm_create string int  \<comment> \<open>\<open>shm_open(O_CREAT | O_EXCL | O_RDWR)\<close>: name and descriptor\<close>
  | Shm_attach string int  \<comment> \<open>\<open>shm_open(O_RDWR)\<close>: name and descriptor\<close>
  | Ftruncate int int      \<comment> \<open>\<open>ftruncate\<close>: descriptor and result\<close>
  | Fstat int int          \<comment> \<open>\<open>fstat\<close>: descriptor and result\<close>
  | Mmap int "nat option"  \<comment> \<open>\<open>mmap\<close>: descriptor and address, \<open>None\<close> for \<open>MAP_FAILED\<close>\<close>
  | Munmap nat int         \<comment> \<open>\<open>munmap\<close>: address and result\<close>
  | Close int int          \<comment> \<open>\<open>close\<close>: descriptor and result\<close>
  | Shm_unlink string int  \<comment> \<open>\<open>shm_unlink\<close>: name and result\<close>
  | Sleep nat              \<comment> \<open>\<open>sleep\<close>, in seconds\<close>

type_synonym history = "event list"

record env =
  rdlock_rc :: "history \<Rightarrow> int"
  wrlock_rc :: "history \<Rightarrow> int"
  unlock_rc :: "history \<Rightarrow> int"
  time_now :: "history \<Rightarrow> u64"
  others :: "history \<Rightarrow> region \<Rightarrow> region"

text \<open>The region and the events of this process, the latest first.\<close>

record world =
  mem :: region
  hist :: history

definition emit :: "event \<Rightarrow> world \<Rightarrow> world" where
  "emit ev w = w\<lparr>hist := ev # hist w\<rparr>"

definition set_mem :: "region \<Rightarrow> world \<Rightarrow> world" where
  "set_mem r w = w\<lparr>mem := r\<rparr>"

text \<open>A base pointer: \<open>nullptr\<close>, or the address of the mapped region.\<close>

datatype shm_ptr = Null_base | Mapped_base

section \<open>Locking and time\<close>

definition lock_for_read :: "'a env_scheme \<Rightarrow> world \<Rightarrow> bool \<times> world" where
  "lock_for_read env w =
     (let rc = rdlock_rc env (hist w);
          w = emit (Read_lock rc) w
      in if rc = 0 then (True, set_mem (others env (hist w) (mem w)) w)
         else (False, emit (Cerr (''Could not acquire cache read lock.'' @ NL)) w))"

definition lock_for_write :: "'a env_scheme \<Rightarrow> world \<Rightarrow> bool \<times> world" where
  "lock_for_write env w =
     (let rc = wrlock_rc env (hist w);
          w = emit (Write_lock rc) w
      in if rc = 0 then (True, set_mem (others env (hist w) (mem w)) w)
         else (False, emit (Cerr (''Could not acquire cache write lock.'' @ NL)) w))"

definition unlock_cache :: "'a env_scheme \<Rightarrow> world \<Rightarrow> world" where
  "unlock_cache env w =
     (let rc = unlock_rc env (hist w);
          w = emit (Unlock rc) w
      in if rc \<noteq> 0 then emit (Cerr (''Could not release cache lock.'' @ NL)) w else w)"

definition read_clock :: "'a env_scheme \<Rightarrow> world \<Rightarrow> u64 \<times> world" where
  "read_clock env w = (let t = time_now env (hist w) in (t, emit (Clock t) w))"

section \<open>The discipline of the lock\<close>

text \<open>
  The phase of this process, read off its history: a lock call that returns zero acquires, an
  unlock call that returns zero releases.  Locking while holding the lock, or unlocking without
  holding it, is an error.
\<close>

datatype lock_phase = Idle | Reading | Writing | Misuse

fun phase_step :: "lock_phase \<Rightarrow> event \<Rightarrow> lock_phase" where
  "phase_step Idle (Read_lock rc) = (if rc = 0 then Reading else Idle)"
| "phase_step Idle (Write_lock rc) = (if rc = 0 then Writing else Idle)"
| "phase_step Idle (Unlock rc) = Misuse"
| "phase_step Reading (Unlock rc) = (if rc = 0 then Idle else Reading)"
| "phase_step Writing (Unlock rc) = (if rc = 0 then Idle else Writing)"
| "phase_step Reading (Read_lock rc) = Misuse"
| "phase_step Reading (Write_lock rc) = Misuse"
| "phase_step Writing (Read_lock rc) = Misuse"
| "phase_step Writing (Write_lock rc) = Misuse"
| "phase_step ph ev = ph"

fun phase :: "history \<Rightarrow> lock_phase" where
  "phase [] = Idle"
| "phase (ev # h) = phase_step (phase h) ev"

section \<open>Assumptions on an environment\<close>

text \<open>
  \<open>peers_ok\<close>: the other processes use the same engine, so what they leave is a well-formed
  table of the same capacity.  \<open>locks_ok\<close>: the lock calls succeed, as they do on an initialised
  lock that is not held by the caller.
\<close>

definition peers_ok :: "'a env_scheme \<Rightarrow> bool" where
  "peers_ok env \<longleftrightarrow>
     (\<forall>h r. table_wf r \<longrightarrow> table_wf (others env h r) \<and>
        capacity (hdr (others env h r)) = capacity (hdr r))"

definition locks_ok :: "'a env_scheme \<Rightarrow> bool" where
  "locks_ok env \<longleftrightarrow> (\<forall>h. rdlock_rc env h = 0 \<and> wrlock_rc env h = 0 \<and> unlock_rc env h = 0)"

text \<open>No other process: the region is found as it was left.\<close>

definition alone :: "'a env_scheme \<Rightarrow> bool" where
  "alone env \<longleftrightarrow> (\<forall>h r. others env h r = r)"

definition sole_env :: "u64 \<Rightarrow> env" where
  "sole_env t = \<lparr>rdlock_rc = (\<lambda>h. 0), wrlock_rc = (\<lambda>h. 0), unlock_rc = (\<lambda>h. 0),
     time_now = (\<lambda>h. t), others = (\<lambda>h r. r)\<rparr>"

lemma alone_peers_ok: "alone env \<Longrightarrow> peers_ok env"
  by (simp add: alone_def peers_ok_def)

lemma sole_env_ok [simp]:
  "alone (sole_env t)" "locks_ok (sole_env t)" "peers_ok (sole_env t)"
  "time_now (sole_env t) h = t" "rdlock_rc (sole_env t) h = 0" "wrlock_rc (sole_env t) h = 0"
  "unlock_rc (sole_env t) h = 0" "others (sole_env t) h r = r"
  by (simp_all add: alone_def locks_ok_def peers_ok_def sole_env_def)

section \<open>Lemmas\<close>

lemma emit_simps [simp]:
  "mem (emit ev w) = mem w" "hist (emit ev w) = ev # hist w"
  by (simp_all add: emit_def)

lemma set_mem_simps [simp]:
  "mem (set_mem r w) = r" "hist (set_mem r w) = hist w"
  by (simp_all add: set_mem_def)

text \<open>The region found on acquiring the lock in a history.\<close>

definition acquired_read :: "'a env_scheme \<Rightarrow> world \<Rightarrow> region" where
  "acquired_read env w = others env (Read_lock 0 # hist w) (mem w)"

definition acquired_write :: "'a env_scheme \<Rightarrow> world \<Rightarrow> region" where
  "acquired_write env w = others env (Write_lock 0 # hist w) (mem w)"

lemma wf_acquired [wf_intros]:
  assumes "peers_ok env" "table_wf (mem w)"
  shows "table_wf (acquired_read env w)" "table_wf (acquired_write env w)"
  using assms by (simp_all add: peers_ok_def acquired_read_def acquired_write_def)

lemma acquired_alone [simp]:
  "alone env \<Longrightarrow> acquired_read env w = mem w" "alone env \<Longrightarrow> acquired_write env w = mem w"
  by (simp_all add: alone_def acquired_read_def acquired_write_def)

lemma lock_for_read_cases:
  obtains (acquired) w' where "lock_for_read env w = (True, w')" "mem w' = acquired_read env w"
      "rdlock_rc env (hist w) = 0" "hist w' = Read_lock 0 # hist w"
  | (failed) w' where "lock_for_read env w = (False, w')" "mem w' = mem w"
      "rdlock_rc env (hist w) \<noteq> 0"
      "hist w' = Cerr (''Could not acquire cache read lock.'' @ NL)
         # Read_lock (rdlock_rc env (hist w)) # hist w"
proof (cases "rdlock_rc env (hist w) = 0")
  case True
  then show ?thesis
    by (intro acquired[of "snd (lock_for_read env w)"]) (auto simp: lock_for_read_def Let_def acquired_read_def)
next
  case False
  then show ?thesis
    by (intro failed[of "snd (lock_for_read env w)"]) (auto simp: lock_for_read_def Let_def)
qed

lemma lock_for_write_cases:
  obtains (acquired) w' where "lock_for_write env w = (True, w')" "mem w' = acquired_write env w"
      "wrlock_rc env (hist w) = 0" "hist w' = Write_lock 0 # hist w"
  | (failed) w' where "lock_for_write env w = (False, w')" "mem w' = mem w"
      "wrlock_rc env (hist w) \<noteq> 0"
      "hist w' = Cerr (''Could not acquire cache write lock.'' @ NL)
         # Write_lock (wrlock_rc env (hist w)) # hist w"
proof (cases "wrlock_rc env (hist w) = 0")
  case True
  then show ?thesis
    by (intro acquired[of "snd (lock_for_write env w)"]) (auto simp: lock_for_write_def Let_def acquired_write_def)
next
  case False
  then show ?thesis
    by (intro failed[of "snd (lock_for_write env w)"]) (auto simp: lock_for_write_def Let_def)
qed

lemma mem_unlock_cache [simp]: "mem (unlock_cache env w) = mem w"
  by (simp add: unlock_cache_def Let_def)

lemma read_clock_eq: "read_clock env w = (time_now env (hist w), emit (Clock (time_now env (hist w))) w)"
  by (simp add: read_clock_def Let_def)

text \<open>An unlock that succeeds ends a critical section.\<close>

lemma phase_unlock_cache:
  assumes "unlock_rc env (hist w) = 0" "phase (hist w) = Reading \<or> phase (hist w) = Writing"
  shows "phase (hist (unlock_cache env w)) = Idle"
  using assms by (auto simp: unlock_cache_def Let_def)

end
