(* ===== verification/Operations.thy ===== *)
theory Operations
  imports Environ
begin

text \<open>
  The exported operations of \<open>src/cache_engine.cpp\<close> on a mapped region: \<open>find_slot\<close>,
  \<open>cache_put_ttl\<close>, \<open>cache_put\<close>, \<open>cache_get\<close>, \<open>cache_update\<close> and \<open>cache_delete\<close>.  An operation
  takes the environment, the base pointer and its arguments, and the state; its early returns
  are branches, in the order of the code, and every call to the lock and the clock is made where
  the code makes it.
\<close>

section \<open>Argument checks\<close>

definition valid_key_argument :: "char list option \<Rightarrow> bool" where
  "valid_key_argument key =
     (case key of None \<Rightarrow> False | Some k \<Rightarrow> char_at k 0 \<noteq> NUL \<and> strlen k < MAX_KEY_LEN)"

definition valid_value_argument :: "char list option \<Rightarrow> bool" where
  "valid_value_argument v =
     (case v of None \<Rightarrow> False | Some s \<Rightarrow> strlen s < MAX_VAL_LEN)"

section \<open>Operations\<close>

definition find_slot ::
  "'a env_scheme \<Rightarrow> shm_ptr \<Rightarrow> char list option \<Rightarrow> world \<Rightarrow> i32 \<times> world" where
  "find_slot env shm_base key w =
     (if shm_base = Null_base \<or> \<not> valid_key_argument key then (- 1, w)
      else let (ok, w) = lock_for_read env w
      in if \<not> ok then (- 1, w)
      else let index = fst (find_slot_internal (Some (mem w)) key None)
      in (index, unlock_cache env w))"

text \<open>\<open>find_slot_internal\<close> with a counter set to zero, added to the total afterwards.\<close>

definition search_counted :: "char list \<Rightarrow> world \<Rightarrow> i32 \<times> world" where
  "search_counted key w =
     (let (slot_idx, collisions) = find_slot_internal (Some (mem w)) (Some key) (Some 0)
      in (slot_idx, set_mem (add_collisions (mem w) (the collisions)) w))"

text \<open>
  The part of \<open>cache_put_ttl\<close> that looks for a slot, under the write lock: search; reclaim
  expired entries and search again; evict the oldest write and search again.
\<close>

definition choose_slot :: "'a env_scheme \<Rightarrow> char list \<Rightarrow> world \<Rightarrow> i32 \<times> world" where
  "choose_slot env key w =
     (let (slot_idx, w) = search_counted key w
      in if \<not> sint slot_idx < 0 then (slot_idx, w)
      else let (now, w) = read_clock env w;
               w = set_mem (reclaim_expired (mem w) now) w;
               (slot_idx, w) = search_counted key w
      in if \<not> sint slot_idx < 0 then (slot_idx, w)
      else let (evicted, r) = evict_oldest_write (mem w);
               w = set_mem r w
      in if \<not> evicted then (- 1, w) else search_counted key w)"

definition cache_put_ttl ::
  "'a env_scheme \<Rightarrow> shm_ptr \<Rightarrow> char list option \<Rightarrow> char list option \<Rightarrow> u32 \<Rightarrow> world
     \<Rightarrow> bool \<times> world" where
  "cache_put_ttl env shm_base key val ttl_sec w =
     (if shm_base = Null_base \<or> \<not> valid_key_argument key \<or> \<not> valid_value_argument val
      then (False, w)
      else let (ok, w) = lock_for_write env w
      in if \<not> ok then (False, w)
      else let (slot_idx, w) = choose_slot env (the key) w
      in if sint slot_idx < 0 then (False, unlock_cache env w)
      else let p = entry_pos (hdr (mem w)) slot_idx;
               (now, w) = read_clock env w;
               w = set_mem (store_entry (mem w) p (the key) (the val) now ttl_sec) w
      in (True, unlock_cache env w))"

definition cache_put ::
  "'a env_scheme \<Rightarrow> shm_ptr \<Rightarrow> char list option \<Rightarrow> char list option \<Rightarrow> world \<Rightarrow> bool \<times> world"
  where
  "cache_put env shm_base key val w = cache_put_ttl env shm_base key val 0 w"

text \<open>The counters of a \<open>GET\<close>, updated under the write lock.\<close>

definition count_get :: "bool \<Rightarrow> u32 \<Rightarrow> region \<Rightarrow> region" where
  "count_get hit collisions r =
     (let h = hdr r;
          h = (if hit then h\<lparr>total_hits := total_hits h + 1\<rparr>
               else h\<lparr>total_misses := total_misses h + 1\<rparr>)
      in r\<lparr>hdr := h\<lparr>total_collisions := total_collisions h + ucast collisions\<rparr>\<rparr>)"

definition add_get_metrics :: "'a env_scheme \<Rightarrow> bool \<Rightarrow> u32 \<Rightarrow> world \<Rightarrow> bool \<times> world" where
  "add_get_metrics env hit collisions w =
     (let (ok, w) = lock_for_write env w
      in if \<not> ok then (False, w)
      else (True, unlock_cache env (set_mem (count_get hit collisions (mem w)) w)))"

text \<open>
  The end of \<open>cache_get\<close> for a key found expired under the read lock: look again under the
  write lock, and remove the entry only if it is still expired.
\<close>

definition get_expired :: "'a env_scheme \<Rightarrow> char list \<Rightarrow> u32 \<Rightarrow> world \<Rightarrow> world" where
  "get_expired env key collisions w =
     (let (ok, w) = lock_for_write env w
      in if \<not> ok then w
      else let current_idx = find_key_locked (mem w) key;
               w = (if \<not> sint current_idx < 0
                    then let (now, w) = read_clock env w
                         in if cache_entry_expired (entry_at (mem w) current_idx) now
                            then set_mem (remove_entry (mem w)
                                   (entry_pos (hdr (mem w)) current_idx)) w
                            else w
                    else w)
      in unlock_cache env (set_mem (count_get False collisions (mem w)) w))"

text \<open>
  \<open>cache_get\<close> returns whether the key was found, the contents of the two out parameters (the
  value array and the optional timestamp) and the state.
\<close>

definition cache_get ::
  "'a env_scheme \<Rightarrow> shm_ptr \<Rightarrow> char list option \<Rightarrow> char list option \<Rightarrow> u64 option \<Rightarrow> world
     \<Rightarrow> bool \<times> char list option \<times> u64 option \<times> world" where
  "cache_get env shm_base key out_value out_timestamp w =
     (if shm_base = Null_base \<or> \<not> valid_key_argument key \<or> out_value = None
      then (False, out_value, out_timestamp, w)
      else let (ok, w) = lock_for_read env w
      in if \<not> ok then (False, out_value, out_timestamp, w)
      else let start_index = hash_key (the key) (capacity (hdr (mem w)))
      in case get_loop (mem w) (the key) start_index 0 0 of
           Exit_empty collisions \<Rightarrow>
             (let w = unlock_cache env w; (_, w) = add_get_metrics env False collisions w
              in (False, out_value, out_timestamp, w))
         | Exit_end collisions \<Rightarrow>
             (let w = unlock_cache env w; (_, w) = add_get_metrics env False collisions w
              in (False, out_value, out_timestamp, w))
         | Exit_match curr_index collisions \<Rightarrow>
             (let entry = entry_at (mem w) curr_index;
                  (now, w) = read_clock env w
              in if cache_entry_expired entry now
                 then let w = unlock_cache env w
                      in (False, out_value, out_timestamp, get_expired env (the key) collisions w)
                 else let value_copy = copy_terminated (replicate MAX_VAL_LEN NUL)
                                         (slot_value entry) MAX_VAL_LEN;
                          timestamp_copy = timestamp entry;
                          w = unlock_cache env w;
                          out_value = map_option
                            (\<lambda>out. copy_terminated out value_copy MAX_VAL_LEN) out_value;
                          out_timestamp = map_option (\<lambda>_. timestamp_copy) out_timestamp;
                          (_, w) = add_get_metrics env True collisions w
                      in (True, out_value, out_timestamp, w)))"

definition cache_update ::
  "'a env_scheme \<Rightarrow> shm_ptr \<Rightarrow> char list option \<Rightarrow> char list option \<Rightarrow> world \<Rightarrow> bool \<times> world"
  where
  "cache_update env shm_base key new_value w =
     (if shm_base = Null_base \<or> \<not> valid_key_argument key \<or> \<not> valid_value_argument new_value
      then (False, w)
      else let (ok, w) = lock_for_write env w
      in if \<not> ok then (False, w)
      else let start_index = hash_key (the key) (capacity (hdr (mem w)))
      in case probe_loop (mem w) (the key) start_index 0 of
           Exit_empty i \<Rightarrow> (False, unlock_cache env (set_mem (add_collisions (mem w) i) w))
         | Exit_end i \<Rightarrow> (False, unlock_cache env (set_mem (add_collisions (mem w) i) w))
         | Exit_match curr_index i \<Rightarrow>
             (let p = entry_pos (hdr (mem w)) curr_index;
                  w = set_mem (add_collisions (mem w) i) w;
                  (now, w) = read_clock env w
              in if cache_entry_expired (slots (mem w) ! p) now
                 then (False, unlock_cache env (set_mem (remove_entry (mem w) p) w))
                 else let (stamp, w) = read_clock env w;
                          w = set_mem (rewrite_entry (mem w) p (the new_value) stamp) w
                      in (True, unlock_cache env w)))"

definition cache_delete ::
  "'a env_scheme \<Rightarrow> shm_ptr \<Rightarrow> char list option \<Rightarrow> world \<Rightarrow> bool \<times> world" where
  "cache_delete env shm_base key w =
     (if shm_base = Null_base \<or> \<not> valid_key_argument key then (False, w)
      else let (ok, w) = lock_for_write env w
      in if \<not> ok then (False, w)
      else let start_index = hash_key (the key) (capacity (hdr (mem w)))
      in case probe_loop (mem w) (the key) start_index 0 of
           Exit_empty i \<Rightarrow> (False, unlock_cache env (set_mem (add_collisions (mem w) i) w))
         | Exit_end i \<Rightarrow> (False, unlock_cache env (set_mem (add_collisions (mem w) i) w))
         | Exit_match curr_index i \<Rightarrow>
             (let p = entry_pos (hdr (mem w)) curr_index;
                  w = set_mem (add_collisions (mem w) i) w
              in (True, unlock_cache env (set_mem (remove_entry (mem w) p) w))))"

section \<open>Argument checks and the table\<close>

lemma valid_key_fits: "valid_key_argument (Some key) \<longleftrightarrow> key_fits key"
  by (auto simp: valid_key_argument_def key_fits_def cstr_empty_iff)

lemma valid_value_fits: "valid_value_argument (Some v) \<longleftrightarrow> value_fits v"
  by (simp add: valid_value_argument_def value_fits_def)

lemma valid_key_None [simp]: "\<not> valid_key_argument None"
  by (simp add: valid_key_argument_def)

lemma valid_value_None [simp]: "\<not> valid_value_argument None"
  by (simp add: valid_value_argument_def)

text \<open>A key longer than the bound is held by no slot: a stored key has a terminator in 64 bytes.\<close>

lemma held_key_fits:
  "table_wf r \<Longrightarrow> p < cap r \<Longrightarrow> view r p = Held k \<Longrightarrow> k \<noteq> [] \<and> length k < MAX_KEY_LEN"
  using wf_entry_ok[of r p] strlen_terminated[of "slot_key (slots r ! p)"]
  by (auto simp: view_def entry_ok_def strlen_def)

section \<open>The number of entries and the map\<close>

definition held_slots :: "region \<Rightarrow> nat set" where
  "held_slots r = {p. p < cap r \<and> occupied (slots r ! p)}"

lemma card_filter_nth: "card {p. p < length xs \<and> P (xs ! p)} = count_if P xs"
  by (simp add: count_if_def length_filter_conv_card)

lemma card_held_slots: "layout_ok r \<Longrightarrow> card (held_slots r) = count_if occupied (table r)"
proof -
  assume lay: "layout_ok r"
  have "held_slots r = {p. p < length (table r) \<and> occupied (table r ! p)}"
    using lay by (auto simp: held_slots_def)
  then show ?thesis by (simp only: card_filter_nth[of "table r" occupied])
qed

text \<open>The header's count is the number of keys of the map.\<close>

lemma dom_abs_map:
  assumes wf: "table_wf r"
  shows "dom (abs_map r) = (\<lambda>p. cstr (slot_key (slots r ! p))) ` held_slots r"
proof (intro set_eqI iffI)
  fix k assume "k \<in> dom (abs_map r)"
  then obtain p where "p < cap r" "view r p = Held k"
    using wf by (auto elim: abs_map_SomeD)
  then show "k \<in> (\<lambda>p. cstr (slot_key (slots r ! p))) ` held_slots r"
    by (auto simp: held_slots_def view_def)
next
  fix k assume "k \<in> (\<lambda>p. cstr (slot_key (slots r ! p))) ` held_slots r"
  then obtain p where "p < cap r" "view r p = Held k"
    by (auto simp: held_slots_def view_def)
  then show "k \<in> dom (abs_map r)" using wf by (auto simp: abs_map_SomeI)
qed

lemma entry_count_card:
  assumes wf: "table_wf r"
  shows "unat (entry_count (hdr r)) = card (dom (abs_map r))"
proof -
  have "inj_on (\<lambda>p. cstr (slot_key (slots r ! p))) (held_slots r)"
  proof (rule inj_onI)
    fix p q
    assume "p \<in> held_slots r" "q \<in> held_slots r"
      "cstr (slot_key (slots r ! p)) = cstr (slot_key (slots r ! q))"
    then show "p = q"
      using tbl.view_unique[OF wf, of p q "cstr (slot_key (slots r ! p))"]
      by (auto simp: held_slots_def view_def)
  qed
  then have "card (dom (abs_map r)) = card (held_slots r)"
    unfolding dom_abs_map[OF wf] by (rule card_image)
  then show ?thesis
    using wf_count[OF wf] card_held_slots[OF layout_wf[OF wf]] by simp
qed

text \<open>The table is full of other keys exactly when the key is absent and no slot is unoccupied.\<close>

lemma full_without_iff:
  assumes wf: "table_wf r"
  shows "full_without r k \<longleftrightarrow> abs_map r k = None \<and> card (dom (abs_map r)) = cap r"
proof -
  have lay: "layout_ok r" using wf by (rule layout_wf)
  have full: "card (dom (abs_map r)) = cap r \<longleftrightarrow> (\<forall>p<cap r. occupied (slots r ! p))"
    using entry_count_card[OF wf] wf_count[OF wf] count_if_full[of occupied "table r"] lay by auto
  have "abs_map r k = None \<longleftrightarrow> (\<forall>p<cap r. view r p \<noteq> Held k)"
    using abs_map_NoneI[OF lay] abs_map_SomeI[OF wf] by (metis option.distinct(1))
  with full show ?thesis by (auto simp: full_without_def view_def)
qed

end
