(* ===== verification/Contracts.thy ===== *)
theory Contracts
  imports Operations
begin

text \<open>
  The contracts of the operations over the abstract map: what each returns and leaves behind on
  every branch, for every environment.  The abstract specification of \<open>cache_put_ttl\<close> is
  \<open>room_made\<close> (which entry gives way) followed by a map update.
\<close>

section \<open>Making room\<close>

text \<open>
  The map after room has been made for a key at time \<open>now\<close>: unchanged if the key is there or a
  slot is not occupied; else without its expired items if there are any; else without the key
  of the oldest write.
\<close>

definition full_for :: "region \<Rightarrow> string \<Rightarrow> bool" where
  "full_for r k \<longleftrightarrow> abs_map r k = None \<and> card (dom (abs_map r)) = cap r"

definition some_expired :: "u64 \<Rightarrow> region \<Rightarrow> bool" where
  "some_expired now r \<longleftrightarrow> (\<exists>k it. abs_map r k = Some it \<and> item_expired it now)"

definition slot_key_at :: "region \<Rightarrow> nat \<Rightarrow> string" where
  "slot_key_at r p = cstr (slot_key (slots r ! p))"

definition room_made :: "u64 \<Rightarrow> region \<Rightarrow> string \<Rightarrow> (string \<Rightarrow> item option) \<Rightarrow> bool" where
  "room_made now r k m \<longleftrightarrow>
     (if \<not> full_for r k then m = abs_map r
      else if some_expired now r then m = live_items now (abs_map r)
      else \<exists>p. oldest_below r (cap r) p \<and> m = (abs_map r)(slot_key_at r p := None))"

lemma full_for_without: "table_wf r \<Longrightarrow> full_for r k \<longleftrightarrow> full_without r k"
  by (simp add: full_for_def full_without_iff)

lemma oldest_below_cong:
  "(\<And>p. p < n \<Longrightarrow> slots r' ! p = slots r ! p) \<Longrightarrow> oldest_below r' n p = oldest_below r n p"
  by (auto simp: oldest_below_def)

lemma usable_slot_add_collisions [simp]:
  "usable_slot (add_collisions r c) k p = usable_slot r k p"
  by (simp add: usable_slot_def view_def home_def)

subsection \<open>The counted search\<close>

lemma search_counted_mem:
  assumes "layout_ok (mem w)"
  shows "snd (search_counted key w)
           = set_mem (add_collisions (mem w) (extra (mem w) (cstr key))) w"
    and "fst (search_counted key w) = fst (find_slot_internal (Some (mem w)) (Some key) (Some 0))"
  using find_slot_count[OF assms, of key "Some 0"]
  by (simp_all add: search_counted_def split_beta)

lemma search_counted_spec:
  assumes wf: "table_wf (mem w)" and res: "search_counted key w = (sl, w')"
  shows "hist w' = hist w" "table_wf (mem w')" "abs_map (mem w') = abs_map (mem w)"
    "slots (mem w') = slots (mem w)" "capacity (hdr (mem w')) = capacity (hdr (mem w))"
    "sint sl < 0 \<longleftrightarrow> full_for (mem w) (cstr key)"
    "\<not> sint sl < 0 \<Longrightarrow> usable_slot (mem w') (cstr key) (unat sl)"
    "total_hits (hdr (mem w')) = total_hits (hdr (mem w))"
    "total_misses (hdr (mem w')) = total_misses (hdr (mem w))"
proof -
  have lay: "layout_ok (mem w)" using wf by (rule layout_wf)
  have w': "w' = set_mem (add_collisions (mem w) (extra (mem w) (cstr key))) w"
    using search_counted_mem(1)[OF lay, of key] res by simp
  have sl: "fst (find_slot_internal (Some (mem w)) (Some key) (Some 0)) = sl"
    using search_counted_mem(2)[OF lay, of key] res by simp
  note spec = find_slot_spec[OF wf sl]
  show "hist w' = hist w" "table_wf (mem w')" "abs_map (mem w') = abs_map (mem w)"
    "slots (mem w') = slots (mem w)" "capacity (hdr (mem w')) = capacity (hdr (mem w))"
    "total_hits (hdr (mem w')) = total_hits (hdr (mem w))"
    "total_misses (hdr (mem w')) = total_misses (hdr (mem w))"
    using wf by (simp_all add: w' wf_add_collisions)
  show "sint sl < 0 \<longleftrightarrow> full_for (mem w) (cstr key)"
    using spec full_for_without[OF wf] by auto
  show "usable_slot (mem w') (cstr key) (unat sl)" if "\<not> sint sl < 0"
    using spec that by (auto simp: w')
qed

lemma usable_not_full: "usable_slot r k p \<Longrightarrow> view r p = Free \<or> view r p = Tomb \<Longrightarrow> \<not> full_without r k"
  unfolding usable_slot_def full_without_def by (metis slot_view.distinct(3,5))

subsection \<open>The choice of a slot\<close>

text \<open>
  With a well-formed table the search for a slot always succeeds, and the map it leaves is the
  one the specification allows, for the clock reading it took.
\<close>

definition room_time :: "'a env_scheme \<Rightarrow> world \<Rightarrow> u64" where
  "room_time env w = time_now env (hist w)"

definition slot_chosen ::
  "'a env_scheme \<Rightarrow> char list \<Rightarrow> world \<Rightarrow> i32 \<Rightarrow> world \<Rightarrow> bool" where
  "slot_chosen env key w sl w' \<longleftrightarrow>
     \<not> sint sl < 0 \<and> table_wf (mem w') \<and> usable_slot (mem w') (cstr key) (unat sl) \<and>
     room_made (room_time env w) (mem w) (cstr key) (abs_map (mem w')) \<and>
     capacity (hdr (mem w')) = capacity (hdr (mem w)) \<and>
     total_hits (hdr (mem w')) = total_hits (hdr (mem w)) \<and>
     total_misses (hdr (mem w')) = total_misses (hdr (mem w)) \<and>
     hist w' = (if full_for (mem w) (cstr key) then Clock (room_time env w) # hist w else hist w)"

lemma evict_then_search:
  assumes wf: "table_wf r" and full: "full_for r (cstr key)" and mem: "mem w = r"
  obtains p sl w'' where "oldest_below r (cap r) p"
    "evict_oldest_write r = (True, remove_entry r p)"
    "search_counted key (set_mem (remove_entry r p) w) = (sl, w'')"
    "\<not> sint sl < 0" "usable_slot (mem w'') (cstr key) (unat sl)" "table_wf (mem w'')"
    "abs_map (mem w'') = (abs_map r)(slot_key_at r p := None)"
    "hdr (mem w'') = (hdr (remove_entry r p))
       \<lparr>total_collisions := total_collisions (hdr (mem w''))\<rparr>"
    "hist w'' = hist w"
proof -
  have lay: "layout_ok r" using wf by (rule layout_wf)
  have "count_if occupied (table r) = cap r"
    using full_without_occupied[OF lay] full wf by (simp add: full_for_without)
  then have "0 < count_if occupied (table r)" using layout_cap_pos[OF lay] by simp
  then obtain p where p: "oldest_below r (cap r) p"
    and ev: "evict_oldest_write r = (True, remove_entry r p)"
    using evict_oldest_write_spec[OF wf] by blast
  from p have pc: "p < cap r" and o: "occupied (slots r ! p)" by (auto simp: oldest_below_def)
  let ?v = "set_mem (remove_entry r p) w"
  obtain sl w'' where s: "search_counted key ?v = (sl, w'')" by fastforce
  have wv: "table_wf (mem ?v)" using wf pc o by (simp add: wf_remove_entry)
  note spec = search_counted_spec[OF wv s]
  have "view (remove_entry r p) p = Tomb"
    using pc layout_cap_le[OF lay] by (simp add: view_def)
  then have "\<not> full_without (remove_entry r p) (cstr key)"
    using pc unfolding full_without_def by (metis capacity_remove_entry slot_view.distinct(5))
  then have "\<not> sint sl < 0" using spec(6) full_for_without[OF wv] by simp
  moreover have "hdr (mem w'') = (hdr (remove_entry r p))
       \<lparr>total_collisions := total_collisions (hdr (mem w''))\<rparr>"
    using search_counted_mem(1)[OF layout_wf[OF wv], of key] s by (simp add: add_collisions_def)
  moreover have "abs_map (mem w'') = (abs_map r)(slot_key_at r p := None)"
    using spec(3) abs_remove_entry[OF wf pc o] by (simp add: slot_key_at_def)
  ultimately show ?thesis using that[OF p ev s] spec by simp
qed

lemma choose_slot_free:
  assumes wf: "table_wf (mem w)" and nf: "\<not> full_for (mem w) (cstr key)"
    and res: "choose_slot env key w = (sl, w')"
  shows "slot_chosen env key w sl w'"
proof -
  obtain s1 w1 where s: "search_counted key w = (s1, w1)" by fastforce
  note spec = search_counted_spec[OF wf s]
  have "\<not> sint s1 < 0" using nf spec(6) by simp
  with res s have "sl = s1" "w' = w1" by (simp_all add: choose_slot_def)
  with spec nf show ?thesis by (simp add: slot_chosen_def room_made_def)
qed

text \<open>
  A full table: after the first search the clock is read and expired entries are reclaimed.
  \<open>reclaim_point\<close> describes the region \<open>r\<close> before and the state \<open>v\<close> after that.
\<close>

definition after_reclaim :: "char list \<Rightarrow> world \<Rightarrow> i32 \<times> world" where
  "after_reclaim key v =
     (let (slot_idx, w) = search_counted key v
      in if \<not> sint slot_idx < 0 then (slot_idx, w)
      else let (evicted, r) = evict_oldest_write (mem w);
               w = set_mem r w
      in if \<not> evicted then (- 1, w) else search_counted key w)"

definition reclaim_point ::
  "'a env_scheme \<Rightarrow> char list \<Rightarrow> world \<Rightarrow> region \<Rightarrow> world \<Rightarrow> bool" where
  "reclaim_point env key w r v \<longleftrightarrow>
     table_wf r \<and> abs_map r = abs_map (mem w) \<and> slots r = slots (mem w) \<and>
     capacity (hdr r) = capacity (hdr (mem w)) \<and>
     total_hits (hdr r) = total_hits (hdr (mem w)) \<and>
     total_misses (hdr r) = total_misses (hdr (mem w)) \<and>
     mem v = reclaim_expired r (room_time env w) \<and> hist v = Clock (room_time env w) # hist w \<and>
     choose_slot env key w = after_reclaim key v"

lemma choose_slot_full:
  assumes wf: "table_wf (mem w)" and f: "full_for (mem w) (cstr key)"
  shows "\<exists>r v. reclaim_point env key w r v"
proof -
  let ?now = "room_time env w"
  obtain s1 w1 where s: "search_counted key w = (s1, w1)" by fastforce
  note spec = search_counted_spec[OF wf s]
  have neg: "sint s1 < 0" using f spec(6) by simp
  have t: "read_clock env w1 = (?now, emit (Clock ?now) w1)"
    using spec(1) by (simp add: read_clock_eq room_time_def)
  let ?v = "set_mem (reclaim_expired (mem w1) ?now) (emit (Clock ?now) w1)"
  have "choose_slot env key w = after_reclaim key ?v"
    using s neg t by (simp add: choose_slot_def after_reclaim_def)
  with spec have "reclaim_point env key w (mem w1) ?v" by (simp add: reclaim_point_def)
  then show ?thesis by blast
qed

lemma choose_slot_expired:
  assumes wf: "table_wf (mem w)" and f: "full_for (mem w) (cstr key)"
    and ex: "some_expired (room_time env w) (mem w)"
    and res: "choose_slot env key w = (sl, w')"
  shows "slot_chosen env key w sl w'"
proof -
  let ?now = "room_time env w"
  obtain r v where pt: "reclaim_point env key w r v" using choose_slot_full[OF wf f] by blast
  then have r: "table_wf r" "abs_map r = abs_map (mem w)" "capacity (hdr r) = capacity (hdr (mem w))"
      "total_hits (hdr r) = total_hits (hdr (mem w))"
      "total_misses (hdr r) = total_misses (hdr (mem w))"
    and v: "mem v = reclaim_expired r ?now" "hist v = Clock ?now # hist w"
    and c: "choose_slot env key w = after_reclaim key v"
    by (simp_all add: reclaim_point_def)
  have wv: "table_wf (mem v)" using r v by (simp add: wf_reclaim_expired)
  obtain s2 w2 where s: "search_counted key v = (s2, w2)" by fastforce
  note spec = search_counted_spec[OF wv s]
  have "\<not> full_without (mem v) (cstr key)"
  proof -
    obtain k it where "abs_map r k = Some it" "item_expired it ?now"
      using ex r(2) by (auto simp: some_expired_def)
    then show ?thesis unfolding v(1) by (rule reclaim_frees[OF r(1)])
  qed
  then have "\<not> sint s2 < 0" using spec(6) full_for_without[OF wv] by simp
  with res s c have "sl = s2" "w' = w2" by (simp_all add: after_reclaim_def)
  with spec \<open>\<not> sint s2 < 0\<close> r v f ex show ?thesis
    by (simp add: slot_chosen_def room_made_def abs_reclaim_expired reclaim_expired_frame)
qed

lemma choose_slot_evicts:
  assumes wf: "table_wf (mem w)" and f: "full_for (mem w) (cstr key)"
    and nex: "\<not> some_expired (room_time env w) (mem w)"
    and res: "choose_slot env key w = (sl, w')"
  shows "slot_chosen env key w sl w'"
proof -
  let ?now = "room_time env w"
  obtain r v where pt: "reclaim_point env key w r v" using choose_slot_full[OF wf f] by blast
  then have r: "table_wf r" "abs_map r = abs_map (mem w)" "slots r = slots (mem w)"
      "capacity (hdr r) = capacity (hdr (mem w))"
      "total_hits (hdr r) = total_hits (hdr (mem w))"
      "total_misses (hdr r) = total_misses (hdr (mem w))"
    and v: "mem v = reclaim_expired r ?now" "hist v = Clock ?now # hist w"
    and c: "choose_slot env key w = after_reclaim key v"
    by (simp_all add: reclaim_point_def)
  have no: "\<not> item_expired it ?now" if "abs_map r k = Some it" for k it
    using nex that r(2) by (auto simp: some_expired_def)
  note same = reclaim_nothing[OF r(1) no] and frame = reclaim_expired_frame[OF r(1)]
  have wv: "table_wf (mem v)" using r v by (simp add: wf_reclaim_expired)
  obtain s2 w2 where s: "search_counted key v = (s2, w2)" by fastforce
  note spec = search_counted_spec[OF wv s]
  have fv: "full_for (mem w2) (cstr key)"
    using f r(2,4) same(2) frame spec(3,5) by (simp add: full_for_def v)
  have neg: "sint s2 < 0" using spec(3,5,6) fv by (simp add: full_for_def)
  from evict_then_search[OF spec(2) fv refl] obtain p s3 w3 where
    p: "oldest_below (mem w2) (cap (mem w2)) p"
    and e: "evict_oldest_write (mem w2) = (True, remove_entry (mem w2) p)"
    and s3: "search_counted key (set_mem (remove_entry (mem w2) p) w2) = (s3, w3)"
    and w3: "\<not> sint s3 < 0" "usable_slot (mem w3) (cstr key) (unat s3)" "table_wf (mem w3)"
      "abs_map (mem w3) = (abs_map (mem w2))(slot_key_at (mem w2) p := None)"
      "hdr (mem w3) = (hdr (remove_entry (mem w2) p))
         \<lparr>total_collisions := total_collisions (hdr (mem w3))\<rparr>"
      "hist w3 = hist w2"
    by metis
  have cw: "cap (mem w2) = cap (mem w)" using spec(5) v frame r(4) by simp
  have sl: "slots (mem w2) ! q = slots (mem w) ! q" if "q < cap (mem w)" for q
    using spec(4) same(3)[where p = q] that r(3,4) by (simp add: v)
  have pw: "oldest_below (mem w) (cap (mem w)) p"
    using p cw oldest_below_cong[of "cap (mem w)" "mem w2" "mem w"] sl by simp
  then have "slot_key_at (mem w2) p = slot_key_at (mem w) p"
    using sl by (simp add: slot_key_at_def oldest_below_def)
  then have "abs_map (mem w3) = (abs_map (mem w))(slot_key_at (mem w) p := None)"
    using w3(4) spec(3) same(2) r(2) by (simp add: v)
  moreover have "capacity (hdr (mem w3)) = capacity (hdr (mem w))"
    "total_hits (hdr (mem w3)) = total_hits (hdr (mem w))"
    "total_misses (hdr (mem w3)) = total_misses (hdr (mem w))"
    using arg_cong[OF w3(5), of capacity] arg_cong[OF w3(5), of total_hits]
      arg_cong[OF w3(5), of total_misses] spec(5,8,9) v frame r by simp_all
  moreover have "sl = s3" "w' = w3" using res c s neg e s3 by (simp_all add: after_reclaim_def)
  ultimately show ?thesis
    using w3 pw f nex spec(1) v by (auto simp: slot_chosen_def room_made_def)
qed

lemma choose_slot_spec:
  assumes "table_wf (mem w)" "choose_slot env key w = (sl, w')"
  shows "slot_chosen env key w sl w'"
  using choose_slot_free choose_slot_expired choose_slot_evicts assms by metis

section \<open>PUT\<close>

lemma lock_for_write_ok:
  "wrlock_rc env (hist w) = 0 \<Longrightarrow>
   lock_for_write env w = (True, \<lparr>mem = acquired_write env w, hist = Write_lock 0 # hist w\<rparr>)"
  by (simp add: lock_for_write_def Let_def acquired_write_def emit_def set_mem_def)

lemma lock_for_read_ok:
  "rdlock_rc env (hist w) = 0 \<Longrightarrow>
   lock_for_read env w = (True, \<lparr>mem = acquired_read env w, hist = Read_lock 0 # hist w\<rparr>)"
  by (simp add: lock_for_read_def Let_def acquired_read_def emit_def set_mem_def)

lemma lock_for_write_fails:
  "wrlock_rc env (hist w) \<noteq> 0 \<Longrightarrow> fst (lock_for_write env w) = False \<and>
   mem (snd (lock_for_write env w)) = mem w"
  by (simp add: lock_for_write_def Let_def)

lemma lock_for_read_fails:
  "rdlock_rc env (hist w) \<noteq> 0 \<Longrightarrow> fst (lock_for_read env w) = False \<and>
   mem (snd (lock_for_read env w)) = mem w"
  by (simp add: lock_for_read_def Let_def)

text \<open>The two clock readings of a PUT: for reclaiming (if the table is full) and for the entry.\<close>

definition reclaim_time :: "'a env_scheme \<Rightarrow> world \<Rightarrow> u64" where
  "reclaim_time env w = time_now env (Write_lock 0 # hist w)"

definition put_time :: "'a env_scheme \<Rightarrow> char list \<Rightarrow> world \<Rightarrow> u64" where
  "put_time env key w =
     time_now env
       (if full_for (acquired_write env w) (cstr key)
        then Clock (reclaim_time env w) # Write_lock 0 # hist w else Write_lock 0 # hist w)"

definition put_result ::
  "'a env_scheme \<Rightarrow> char list \<Rightarrow> char list \<Rightarrow> u32 \<Rightarrow> world \<Rightarrow> world \<Rightarrow> bool" where
  "put_result env key val ttl w w' \<longleftrightarrow>
     table_wf (mem w') \<and> capacity (hdr (mem w')) = capacity (hdr (acquired_write env w)) \<and>
     total_hits (hdr (mem w')) = total_hits (hdr (acquired_write env w)) \<and>
     total_misses (hdr (mem w')) = total_misses (hdr (acquired_write env w)) \<and>
     (\<exists>m. room_made (reclaim_time env w) (acquired_write env w) (cstr key) m \<and>
          abs_map (mem w') = m(cstr key \<mapsto>
            \<lparr>item_value = cstr val, item_time = put_time env key w, item_ttl = ttl\<rparr>))"

lemma usable_entry_pos:
  assumes "table_wf r" "usable_slot r k (unat i)"
  shows "entry_pos (hdr r) i = unat i"
  using assms by (intro entry_pos_eq) (auto simp: usable_slot_def layout_wf)

lemma cache_put_ttl_spec:
  assumes wf: "table_wf (acquired_write env w)" and k: "key_fits key" and v: "value_fits val"
    and lock: "wrlock_rc env (hist w) = 0"
    and res: "cache_put_ttl env Mapped_base (Some key) (Some val) ttl w = (ok, w')"
  shows "ok \<and> put_result env key val ttl w w'"
proof -
  let ?a = "\<lparr>mem = acquired_write env w, hist = Write_lock 0 # hist w\<rparr>"
  obtain sl w1 where c: "choose_slot env key ?a = (sl, w1)" by fastforce
  have ch: "slot_chosen env key ?a sl w1" using wf c by (intro choose_slot_spec) simp_all
  then have sl: "\<not> sint sl < 0" and w1: "table_wf (mem w1)"
    and u: "usable_slot (mem w1) (cstr key) (unat sl)"
    and room: "room_made (reclaim_time env w) (acquired_write env w) (cstr key) (abs_map (mem w1))"
    and time: "time_now env (hist w1) = put_time env key w"
    by (auto simp: slot_chosen_def room_time_def reclaim_time_def put_time_def)
  note pos = usable_entry_pos[OF w1 u]
  let ?t = "put_time env key w"
  have "ok = True" and m: "mem w' = store_entry (mem w1) (unat sl) key val ?t ttl"
    using res lock c sl pos k v time
    by (auto simp: cache_put_ttl_def lock_for_write_ok read_clock_eq valid_key_fits
        valid_value_fits)
  moreover have "table_wf (store_entry (mem w1) (unat sl) key val ?t ttl)"
    using w1 u k v by (rule wf_store_entry)
  ultimately show ?thesis
    using room abs_store_entry[OF w1 u k v, of ?t ttl] ch
    by (auto simp: put_result_def slot_chosen_def)
qed

lemma cache_put_ttl_rejects:
  assumes "base = Null_base \<or> \<not> valid_key_argument key \<or> \<not> valid_value_argument val"
  shows "cache_put_ttl env base key val ttl w = (False, w)"
  using assms by (auto simp: cache_put_ttl_def)

lemma cache_put_ttl_unlocked:
  assumes "wrlock_rc env (hist w) \<noteq> 0"
  shows "fst (cache_put_ttl env base key val ttl w) = False \<and>
         mem (snd (cache_put_ttl env base key val ttl w)) = mem w"
  using lock_for_write_fails[OF assms] by (auto simp: cache_put_ttl_def split_beta)

section \<open>Searching for a key\<close>

lemma probe_exit_cases:
  assumes wf: "table_wf r"
  obtains (hit) idx where
      "probe_loop r key (start_of r key) 0 = Exit_match idx (extra r (cstr key))"
      "unat idx < cap r" "view r (unat idx) = Held (cstr key)"
      "abs_map r (cstr key) = Some (entry_item (slots r ! unat idx))"
      "entry_at r idx = slots r ! unat idx" "entry_pos (hdr r) idx = unat idx"
  | (miss) "abs_map r (cstr key) = None"
      "probe_loop r key (start_of r key) 0 = Exit_empty (extra r (cstr key)) \<or>
       probe_loop r key (start_of r key) 0 = Exit_end (extra r (cstr key))"
proof -
  have lay: "layout_ok r" using wf by (rule layout_wf)
  note pl = probe_loop_search[OF lay, of key]
  show ?thesis
  proof (cases "found r (cstr key)")
    case (Found j)
    note f = tbl.search_Found[OF wf Found]
    have u: "unat (slot_word r (cstr key) j) = ring_pos (cap r) (home r (cstr key)) j"
      using unat_slot_word[OF lay] .
    then have c: "unat (slot_word r (cstr key) j) < cap r" using layout_cap_pos[OF lay] by simp
    show ?thesis
    proof (rule hit)
      show "probe_loop r key (start_of r key) 0
          = Exit_match (slot_word r (cstr key) j) (extra r (cstr key))"
        using pl Found by (simp add: exit_of_def extra_def extra_visits_def)
      show "view r (unat (slot_word r (cstr key) j)) = Held (cstr key)" using f u by simp
      then show "abs_map r (cstr key) = Some (entry_item (slots r ! unat (slot_word r (cstr key) j)))"
        using wf c by (simp add: abs_map_SomeI)
    qed (use c lay in \<open>simp_all add: entry_at_eq entry_pos_eq\<close>)
  next
    case (Stopped j)
    have "abs_map r (cstr key) = None"
      using tbl.search_fails[OF wf, of "cstr key"] Stopped lay by (auto intro: abs_map_NoneI)
    with pl Stopped show ?thesis
      by (intro miss) (simp_all add: exit_of_def extra_def extra_visits_def)
  next
    case Exhausted
    have "abs_map r (cstr key) = None"
      using tbl.search_fails[OF wf, of "cstr key"] Exhausted lay by (auto intro: abs_map_NoneI)
    with pl Exhausted show ?thesis
      by (intro miss) (simp_all add: exit_of_def extra_def extra_visits_def)
  qed
qed

lemma find_key_cases:
  assumes wf: "table_wf r"
  obtains (hit) "\<not> sint (find_key_locked r key) < 0" "unat (find_key_locked r key) < cap r"
      "view r (unat (find_key_locked r key)) = Held (cstr key)"
      "entry_at r (find_key_locked r key) = slots r ! unat (find_key_locked r key)"
      "entry_pos (hdr r) (find_key_locked r key) = unat (find_key_locked r key)"
  | (miss) "abs_map r (cstr key) = None" "sint (find_key_locked r key) < 0"
proof -
  have lay: "layout_ok r" using wf by (rule layout_wf)
  note fk = find_key_locked_eq[OF lay, of key]
  show ?thesis
  proof (cases "\<exists>j. found r (cstr key) = Found j")
    case True
    then obtain j where Found: "found r (cstr key) = Found j" by blast
    with fk have e: "find_key_locked r key = slot_word r (cstr key) j" by simp
    have u: "unat (slot_word r (cstr key) j) = ring_pos (cap r) (home r (cstr key)) j"
      using unat_slot_word[OF lay] .
    then have c: "unat (slot_word r (cstr key) j) < cap r" using layout_cap_pos[OF lay] by simp
    show ?thesis
      using tbl.search_Found[OF wf Found] u c lay slot_word_nonneg[OF lay]
      by (intro hit) (simp_all add: e entry_at_eq entry_pos_eq)
  next
    case False
    then have "abs_map r (cstr key) = None"
      using tbl.search_fails[OF wf, of "cstr key"] lay by (auto intro: abs_map_NoneI)
    with fk False show ?thesis
      by (intro miss) (auto split: scan_result.splits)
  qed
qed

section \<open>GET\<close>

lemma count_get_simps [simp]:
  "slots (count_get hit c r) = slots r"
  "capacity (hdr (count_get hit c r)) = capacity (hdr r)"
  "data_offset (hdr (count_get hit c r)) = data_offset (hdr r)"
  "entry_count (hdr (count_get hit c r)) = entry_count (hdr r)"
  "total_hits (hdr (count_get hit c r)) = total_hits (hdr r) + (if hit then 1 else 0)"
  "total_misses (hdr (count_get hit c r)) = total_misses (hdr r) + (if hit then 0 else 1)"
  "total_collisions (hdr (count_get hit c r)) = total_collisions (hdr r) + ucast c"
  by (simp_all add: count_get_def Let_def)

lemma wf_count_get [wf_intros]: "table_wf r \<Longrightarrow> table_wf (count_get hit c r)"
  and abs_count_get [simp]: "table_wf r \<Longrightarrow> abs_map (count_get hit c r) = abs_map r"
  by (rule table_wf_hdr; simp)+

lemma mem_add_get_metrics:
  "mem (snd (add_get_metrics env hit c w)) =
     (if wrlock_rc env (hist w) = 0 then count_get hit c (acquired_write env w) else mem w)"
  using lock_for_write_fails[of env w]
  by (auto simp: add_get_metrics_def lock_for_write_ok split_beta)

definition get_time :: "'a env_scheme \<Rightarrow> world \<Rightarrow> u64" where
  "get_time env w = time_now env (Read_lock 0 # hist w)"

text \<open>
  The out parameter of a hit: a terminated copy of the stored value in the first 256 bytes.
\<close>

definition copied_out :: "char list \<Rightarrow> string \<Rightarrow> char list \<Rightarrow> bool" where
  "copied_out out s out' \<longleftrightarrow> cstr out' = s \<and> length out' = length out"

lemma copied_value:
  assumes "entry_ok e" "occupied e" "MAX_VAL_LEN \<le> length out"
  shows "copied_out out (cstr (slot_value e))
    (copy_terminated out
      (copy_terminated (replicate MAX_VAL_LEN NUL) (slot_value e) MAX_VAL_LEN) MAX_VAL_LEN)"
proof -
  let ?c = "copy_terminated (replicate MAX_VAL_LEN NUL) (slot_value e) MAX_VAL_LEN"
  have s: "strlen (slot_value e) < MAX_VAL_LEN"
    using assms strlen_terminated[of "slot_value e"] by (simp add: entry_ok_def)
  then have c: "cstr ?c = cstr (slot_value e)" by simp
  then have "strlen ?c < MAX_VAL_LEN" using s by (simp add: strlen_def)
  with c assms(3) show ?thesis by (simp add: copied_out_def)
qed

lemma cache_get_hit:
  assumes wf: "table_wf (acquired_read env w)" and k: "key_fits key"
    and lock: "rdlock_rc env (hist w) = 0"
    and it: "abs_map (acquired_read env w) (cstr key) = Some it"
      "\<not> item_expired it (get_time env w)"
  obtains out' u where
    "cache_get env Mapped_base (Some key) (Some out) ots w =
       (True, Some out', map_option (\<lambda>_. item_time it) ots,
        snd (add_get_metrics env True (extra (acquired_read env w) (cstr key)) u))"
    "MAX_VAL_LEN \<le> length out \<Longrightarrow> copied_out out (item_value it) out'"
    "mem u = acquired_read env w"
proof -
  let ?a = "acquired_read env w"
  show ?thesis
  proof (cases rule: probe_exit_cases[OF wf, of key, case_names hit miss])
    case (hit idx)
    let ?e = "slots ?a ! unat idx"
    let ?u = "unlock_cache env \<lparr>mem = ?a, hist = Clock (get_time env w) # Read_lock 0 # hist w\<rparr>"
    have e: "it = entry_item ?e" using hit it by simp
    then have ne: "\<not> cache_entry_expired ?e (get_time env w)" using it by (simp add: expired_item)
    have "occupied ?e" using hit(3) by (simp add: view_def)
    then have copy: "copied_out out (item_value it)
      (copy_terminated out
        (copy_terminated (replicate MAX_VAL_LEN NUL) (slot_value ?e) MAX_VAL_LEN) MAX_VAL_LEN)"
      if "MAX_VAL_LEN \<le> length out"
      using copied_value[OF wf_entry_ok[OF wf hit(2)] _ that] e by (simp add: entry_item_def)
    show ?thesis
    proof (rule that[OF _ copy])
      show "cache_get env Mapped_base (Some key) (Some out) ots w =
         (True, Some (copy_terminated out
            (copy_terminated (replicate MAX_VAL_LEN NUL) (slot_value ?e) MAX_VAL_LEN) MAX_VAL_LEN),
          map_option (\<lambda>_. item_time it) ots,
          snd (add_get_metrics env True (extra ?a (cstr key)) ?u))"
        using hit ne k lock
        by (simp add: cache_get_def Let_def lock_for_read_ok valid_key_fits get_loop_eq[OF layout_wf[OF wf]]
            read_clock_eq get_time_def emit_def e entry_item_def split_beta)
    qed simp_all
  next
    case miss
    with it show ?thesis by simp
  qed
qed

lemma cache_get_absent:
  assumes wf: "table_wf (acquired_read env w)" and k: "key_fits key"
    and lock: "rdlock_rc env (hist w) = 0"
    and it: "abs_map (acquired_read env w) (cstr key) = None"
  obtains u where
    "cache_get env Mapped_base (Some key) (Some out) ots w =
       (False, Some out, ots,
        snd (add_get_metrics env False (extra (acquired_read env w) (cstr key)) u))"
    "mem u = acquired_read env w"
proof -
  let ?a = "acquired_read env w"
  let ?u = "unlock_cache env \<lparr>mem = ?a, hist = Read_lock 0 # hist w\<rparr>"
  show ?thesis
  proof (rule that[of ?u])
    show "cache_get env Mapped_base (Some key) (Some out) ots w =
       (False, Some out, ots, snd (add_get_metrics env False (extra ?a (cstr key)) ?u))"
    proof (cases rule: probe_exit_cases[OF wf, of key, case_names hit miss])
      case (hit idx)
      with it show ?thesis by simp
    next
      case miss
      from miss(2) show ?thesis
        using k lock
        by (elim disjE) (simp_all add: cache_get_def Let_def lock_for_read_ok valid_key_fits
            get_loop_eq[OF layout_wf[OF wf]] split_beta)
    qed
  qed simp
qed

lemma cache_get_expired:
  assumes wf: "table_wf (acquired_read env w)" and k: "key_fits key"
    and lock: "rdlock_rc env (hist w) = 0"
    and it: "abs_map (acquired_read env w) (cstr key) = Some it"
      "item_expired it (get_time env w)"
  obtains u where
    "cache_get env Mapped_base (Some key) (Some out) ots w =
       (False, Some out, ots,
        get_expired env key (extra (acquired_read env w) (cstr key)) u)"
    "mem u = acquired_read env w"
proof -
  let ?a = "acquired_read env w"
  let ?u = "unlock_cache env \<lparr>mem = ?a, hist = Clock (get_time env w) # Read_lock 0 # hist w\<rparr>"
  show ?thesis
  proof (rule that[of ?u])
    show "cache_get env Mapped_base (Some key) (Some out) ots w =
       (False, Some out, ots, get_expired env key (extra ?a (cstr key)) ?u)"
    proof (cases rule: probe_exit_cases[OF wf, of key, case_names hit miss])
      case (hit idx)
      then have "cache_entry_expired (slots ?a ! unat idx) (get_time env w)"
        using it expired_item by simp
      with hit k lock show ?thesis
        by (simp add: cache_get_def Let_def lock_for_read_ok valid_key_fits get_loop_eq[OF layout_wf[OF wf]]
            read_clock_eq get_time_def emit_def)
    next
      case miss
      with it show ?thesis by simp
    qed
  qed simp
qed

text \<open>
  The second look at an expired key: what another process may have stored meanwhile survives.
\<close>

lemma get_expired_spec:
  assumes wf: "table_wf (acquired_write env u)" and lock: "wrlock_rc env (hist u) = 0"
  defines "b \<equiv> acquired_write env u" and "t \<equiv> time_now env (Write_lock 0 # hist u)"
  shows "table_wf (mem (get_expired env key c u)) \<and>
     abs_map (mem (get_expired env key c u)) =
       (case abs_map b (cstr key) of
          Some it \<Rightarrow> if item_expired it t then (abs_map b)(cstr key := None) else abs_map b
        | None \<Rightarrow> abs_map b) \<and>
     total_misses (hdr (mem (get_expired env key c u))) = total_misses (hdr b) + 1 \<and>
     total_hits (hdr (mem (get_expired env key c u))) = total_hits (hdr b) \<and>
     total_collisions (hdr (mem (get_expired env key c u))) = total_collisions (hdr b) + ucast c \<and>
     capacity (hdr (mem (get_expired env key c u))) = capacity (hdr b)"
proof (cases rule: find_key_cases[OF wf, of key, case_names hit miss])
  case hit
  let ?p = "unat (find_key_locked b key)"
  have o: "occupied (slots b ! ?p)" "slot_key_at b ?p = cstr key"
    using hit(3) by (simp_all add: view_def slot_key_at_def b_def)
  have it: "abs_map b (cstr key) = Some (entry_item (slots b ! ?p))"
    using abs_map_SomeI[OF wf hit(2,3)] by (simp add: b_def)
  show ?thesis
  proof (cases "cache_entry_expired (slots b ! ?p) t")
    case True
    then have "mem (get_expired env key c u) = count_get False c (remove_entry b ?p)"
      using hit lock
      by (simp add: get_expired_def Let_def lock_for_write_ok read_clock_eq b_def t_def)
    moreover have "table_wf (remove_entry b ?p)"
      using wf_remove_entry[OF wf hit(2)] o by (simp add: b_def)
    moreover have "abs_map (remove_entry b ?p) = (abs_map b)(cstr key := None)"
      using abs_remove_entry[OF wf hit(2)] o by (simp add: b_def slot_key_at_def)
    ultimately show ?thesis using it True by (simp add: expired_item wf_count_get)
  next
    case False
    then have "mem (get_expired env key c u) = count_get False c b"
      using hit lock
      by (simp add: get_expired_def Let_def lock_for_write_ok read_clock_eq b_def t_def)
    then show ?thesis using it False wf by (simp add: expired_item wf_count_get b_def)
  qed
next
  case miss
  then have "mem (get_expired env key c u) = count_get False c b"
    using lock by (simp add: get_expired_def Let_def lock_for_write_ok b_def)
  then show ?thesis using miss wf by (simp add: wf_count_get b_def)
qed

lemma get_expired_unlocked:
  "wrlock_rc env (hist u) \<noteq> 0 \<Longrightarrow> mem (get_expired env key c u) = mem u"
  using lock_for_write_fails[of env u] by (simp add: get_expired_def split_beta)

section \<open>UPDATE and DELETE\<close>

definition write_time :: "'a env_scheme \<Rightarrow> world \<Rightarrow> u64" where
  "write_time env w = time_now env (Write_lock 0 # hist w)"

definition update_stamp :: "'a env_scheme \<Rightarrow> world \<Rightarrow> u64" where
  "update_stamp env w = time_now env (Clock (write_time env w) # Write_lock 0 # hist w)"

text \<open>The specification of an update on the map.\<close>

definition updated :: "u64 \<Rightarrow> u64 \<Rightarrow> string \<Rightarrow> string \<Rightarrow> (string \<Rightarrow> item option)
    \<Rightarrow> bool \<times> (string \<Rightarrow> item option)" where
  "updated now stamp k v m =
     (case m k of
        None \<Rightarrow> (False, m)
      | Some it \<Rightarrow>
          if item_expired it now then (False, m(k := None))
          else (True, m(k \<mapsto> it\<lparr>item_value := v, item_time := stamp\<rparr>)))"

lemma cache_update_spec:
  assumes wf: "table_wf (acquired_write env w)" and k: "key_fits key" and v: "value_fits val"
    and lock: "wrlock_rc env (hist w) = 0"
  defines "a \<equiv> acquired_write env w"
    and "res \<equiv> cache_update env Mapped_base (Some key) (Some val) w"
  shows "table_wf (mem (snd res)) \<and>
     (fst res, abs_map (mem (snd res)))
        = updated (write_time env w) (update_stamp env w) (cstr key) (cstr val) (abs_map a) \<and>
     total_collisions (hdr (mem (snd res)))
        = total_collisions (hdr a) + ucast (extra a (cstr key)) \<and>
     capacity (hdr (mem (snd res))) = capacity (hdr a) \<and>
     total_hits (hdr (mem (snd res))) = total_hits (hdr a) \<and>
     total_misses (hdr (mem (snd res))) = total_misses (hdr a)"
proof (cases rule: probe_exit_cases[OF wf, of key, case_names hit miss])
  case (hit idx)
  let ?p = "unat idx"
  let ?b = "add_collisions a (extra a (cstr key))"
  have wb: "table_wf ?b" using wf by (simp add: wf_add_collisions a_def)
  have p: "?p < cap ?b" and vw: "view ?b ?p = Held (cstr key)"
    using hit by (simp_all add: a_def view_def)
  have o: "occupied (slots a ! ?p)" and key: "cstr (slot_key (slots a ! ?p)) = cstr key"
    using hit(3) by (simp_all add: view_def a_def)
  have it: "abs_map a (cstr key) = Some (entry_item (slots a ! ?p))" using hit by (simp add: a_def)
  have ab: "abs_map ?b = abs_map a" using wf by (simp add: a_def)
  show ?thesis
  proof (cases "cache_entry_expired (slots a ! ?p) (write_time env w)")
    case True
    then have "fst res = False" "mem (snd res) = remove_entry ?b ?p"
      using hit k v lock
      by (auto simp: res_def cache_update_def Let_def lock_for_write_ok read_clock_eq valid_key_fits
          valid_value_fits write_time_def a_def)
    then show ?thesis
      using wf_remove_entry[OF wb p] abs_remove_entry[OF wb p] o key it ab True
      by (simp add: updated_def expired_item)
  next
    case False
    then have "fst res = True" "mem (snd res) = rewrite_entry ?b ?p val (update_stamp env w)"
      using hit k v lock
      by (auto simp: res_def cache_update_def Let_def lock_for_write_ok read_clock_eq valid_key_fits
          valid_value_fits write_time_def update_stamp_def a_def)
    then show ?thesis
      using wf_rewrite_entry[OF wb p v] abs_rewrite_entry[OF wb p vw v] it ab False
      by (simp add: updated_def expired_item)
  qed
next
  case miss
  then have "fst res = False \<and> mem (snd res) = add_collisions a (extra a (cstr key))"
    using k v lock
    by (auto simp: res_def cache_update_def Let_def lock_for_write_ok valid_key_fits valid_value_fits a_def)
  then show ?thesis using miss wf by (simp add: updated_def wf_add_collisions a_def)
qed

lemma cache_delete_spec:
  assumes wf: "table_wf (acquired_write env w)" and k: "key_fits key"
    and lock: "wrlock_rc env (hist w) = 0"
  defines "a \<equiv> acquired_write env w"
    and "res \<equiv> cache_delete env Mapped_base (Some key) w"
  shows "table_wf (mem (snd res)) \<and>
     fst res = (abs_map a (cstr key) \<noteq> None) \<and>
     abs_map (mem (snd res)) = (abs_map a)(cstr key := None) \<and>
     total_collisions (hdr (mem (snd res)))
        = total_collisions (hdr a) + ucast (extra a (cstr key)) \<and>
     capacity (hdr (mem (snd res))) = capacity (hdr a) \<and>
     total_hits (hdr (mem (snd res))) = total_hits (hdr a) \<and>
     total_misses (hdr (mem (snd res))) = total_misses (hdr a)"
proof (cases rule: probe_exit_cases[OF wf, of key, case_names hit miss])
  case (hit idx)
  let ?b = "add_collisions a (extra a (cstr key))"
  have wb: "table_wf ?b" using wf by (simp add: wf_add_collisions a_def)
  have p: "unat idx < cap ?b" using hit by (simp add: a_def)
  have o: "occupied (slots ?b ! unat idx)" "cstr (slot_key (slots ?b ! unat idx)) = cstr key"
    using hit(3) by (simp_all add: view_def a_def)
  have "fst res = True" "mem (snd res) = remove_entry ?b (unat idx)"
    using hit k lock
    by (auto simp: res_def cache_delete_def Let_def lock_for_write_ok valid_key_fits a_def)
  then show ?thesis
    using wf_remove_entry[OF wb p o(1)] abs_remove_entry[OF wb p o(1)] o(2) hit(4) wf
    by (simp add: a_def)
next
  case miss
  then have "fst res = False \<and> mem (snd res) = add_collisions a (extra a (cstr key))"
    using k lock
    by (auto simp: res_def cache_delete_def Let_def lock_for_write_ok valid_key_fits a_def)
  then show ?thesis using miss wf by (simp add: wf_add_collisions fun_upd_idem a_def)
qed

end
