(* ===== verification/Discipline.thy ===== *)
theory Discipline
  imports Contracts
begin

text \<open>
  The discipline of the process-shared lock: on every path through an operation, error paths
  included, each acquired lock is released, no lock is taken twice and none is released that is
  not held.  Then the invariant of the table over any sequence of operations, with other
  processes acting in between.
\<close>

section \<open>Phases through an operation\<close>

definition unlock_ok :: "'a env_scheme \<Rightarrow> bool" where
  "unlock_ok env \<longleftrightarrow> (\<forall>h. unlock_rc env h = 0)"

lemma locks_unlock_ok: "locks_ok env \<Longrightarrow> unlock_ok env"
  by (simp add: locks_ok_def unlock_ok_def)

lemma phase_clock [simp]: "phase_step ph (Clock t) = ph"
  by (cases ph) simp_all

lemma phase_cerr [simp]: "phase_step ph (Cerr m) = ph"
  by (cases ph) simp_all

lemma phase_others [simp]:
  "phase_step ph (Cout m) = ph" "phase_step ph (Perror m) = ph"
  "phase_step ph (Attr_init rc) = ph" "phase_step ph (Attr_setpshared rc) = ph"
  "phase_step ph Attr_destroy = ph" "phase_step ph (Rwlock_init rc) = ph"
  "phase_step ph (Shm_create n fd) = ph" "phase_step ph (Shm_attach n fd) = ph"
  "phase_step ph (Ftruncate fd rc) = ph" "phase_step ph (Fstat fd rc) = ph"
  "phase_step ph (Mmap fd ad) = ph" "phase_step ph (Munmap adr rc) = ph"
  "phase_step ph (Close fd rc) = ph" "phase_step ph (Shm_unlink n rc) = ph"
  "phase_step ph (Sleep k) = ph"
  by (cases ph; simp)+

lemma phase_lock_for_write [simp]:
  "phase (hist w) = Idle \<Longrightarrow>
   phase (hist (snd (lock_for_write env w))) = (if fst (lock_for_write env w) then Writing else Idle)"
  by (simp add: lock_for_write_def Let_def)

lemma phase_lock_for_read [simp]:
  "phase (hist w) = Idle \<Longrightarrow>
   phase (hist (snd (lock_for_read env w))) = (if fst (lock_for_read env w) then Reading else Idle)"
  by (simp add: lock_for_read_def Let_def)

lemma phase_unlock [simp]:
  "unlock_ok env \<Longrightarrow> phase (hist w) = Reading \<or> phase (hist w) = Writing \<Longrightarrow>
   phase (hist (unlock_cache env w)) = Idle"
  by (rule phase_unlock_cache) (simp_all add: unlock_ok_def)

lemma hist_search_counted [simp]: "hist (snd (search_counted key w)) = hist w"
  by (simp add: search_counted_def split_beta)

lemma phase_read_clock [simp]: "phase (hist (snd (read_clock env w))) = phase (hist w)"
  by (simp add: read_clock_eq)

lemma phase_choose_slot [simp]: "phase (hist (snd (choose_slot env key w))) = phase (hist w)"
  by (simp add: choose_slot_def split_beta Let_def)

lemma phase_add_get_metrics:
  "unlock_ok env \<Longrightarrow> phase (hist w) = Idle \<Longrightarrow>
   phase (hist (snd (add_get_metrics env hit c w))) = Idle"
  by (simp add: add_get_metrics_def split_beta Let_def)

lemma phase_get_expired:
  "unlock_ok env \<Longrightarrow> phase (hist w) = Idle \<Longrightarrow> phase (hist (get_expired env key c w)) = Idle"
  by (simp add: get_expired_def split_beta Let_def)

lemma phase_cache_put_ttl:
  "unlock_ok env \<Longrightarrow> phase (hist w) = Idle \<Longrightarrow>
   phase (hist (snd (cache_put_ttl env base key val ttl w))) = Idle"
  by (simp add: cache_put_ttl_def split_beta Let_def)

lemma phase_cache_get:
  "unlock_ok env \<Longrightarrow> phase (hist w) = Idle \<Longrightarrow>
   phase (hist (snd (snd (snd (cache_get env base key out ots w))))) = Idle"
  by (simp add: cache_get_def split_beta Let_def phase_add_get_metrics phase_get_expired
      split: probe_exit.split)

lemma phase_cache_update:
  "unlock_ok env \<Longrightarrow> phase (hist w) = Idle \<Longrightarrow>
   phase (hist (snd (cache_update env base key val w))) = Idle"
  by (simp add: cache_update_def split_beta Let_def split: probe_exit.split)

lemma phase_cache_delete:
  "unlock_ok env \<Longrightarrow> phase (hist w) = Idle \<Longrightarrow>
   phase (hist (snd (cache_delete env base key w))) = Idle"
  by (simp add: cache_delete_def split_beta Let_def split: probe_exit.split)

lemma phase_find_slot:
  "unlock_ok env \<Longrightarrow> phase (hist w) = Idle \<Longrightarrow>
   phase (hist (snd (find_slot env base key w))) = Idle"
  by (simp add: find_slot_def split_beta Let_def)

section \<open>Requests\<close>

text \<open>A call of a client, and the state it leaves.\<close>

datatype request =
    Find "char list option"
  | Put "char list option" "char list option" u32
  | Get "char list option" "char list option" "u64 option"
  | Update "char list option" "char list option"
  | Delete "char list option"

fun serve_request :: "'a env_scheme \<Rightarrow> shm_ptr \<Rightarrow> request \<Rightarrow> world \<Rightarrow> world" where
  "serve_request env base (Find key) w = snd (find_slot env base key w)"
| "serve_request env base (Put key val ttl) w = snd (cache_put_ttl env base key val ttl w)"
| "serve_request env base (Get key out ots) w =
     snd (snd (snd (cache_get env base key out ots w)))"
| "serve_request env base (Update key val) w = snd (cache_update env base key val w)"
| "serve_request env base (Delete key) w = snd (cache_delete env base key w)"

definition serve_all :: "'a env_scheme \<Rightarrow> shm_ptr \<Rightarrow> request list \<Rightarrow> world \<Rightarrow> world" where
  "serve_all env base reqs w = fold (serve_request env base) reqs w"

lemma phase_serve_request:
  "unlock_ok env \<Longrightarrow> phase (hist w) = Idle \<Longrightarrow> phase (hist (serve_request env base req w)) = Idle"
  by (cases req) (simp_all add: phase_find_slot phase_cache_put_ttl phase_cache_get
      phase_cache_update phase_cache_delete)

lemma phase_serve_all:
  "unlock_ok env \<Longrightarrow> phase (hist w) = Idle \<Longrightarrow> phase (hist (serve_all env base reqs w)) = Idle"
  unfolding serve_all_def
  by (induction reqs arbitrary: w) (simp_all add: phase_serve_request)

section \<open>The table stays well-formed\<close>

definition table_inv :: "u32 \<Rightarrow> region \<Rightarrow> bool" where
  "table_inv n r \<longleftrightarrow> table_wf r \<and> capacity (hdr r) = n"

lemma table_inv_acquired:
  assumes "peers_ok env" "table_inv n (mem w)"
  shows "table_inv n (acquired_read env w)" "table_inv n (acquired_write env w)"
  using assms by (simp_all add: table_inv_def peers_ok_def acquired_read_def acquired_write_def)

lemma table_inv_put:
  assumes env: "peers_ok env" and inv: "table_inv n (mem w)"
  shows "table_inv n (mem (snd (cache_put_ttl env base key val ttl w)))"
proof (cases "base = Null_base \<or> \<not> valid_key_argument key \<or> \<not> valid_value_argument val")
  case True
  then show ?thesis using inv by (simp add: cache_put_ttl_rejects)
next
  case False
  then obtain k v where kv: "key = Some k" "val = Some v" "key_fits k" "value_fits v"
      "base = Mapped_base"
    by (cases key; cases val; cases base) (auto simp: valid_key_fits valid_value_fits)
  show ?thesis
  proof (cases "wrlock_rc env (hist w) = 0")
    case True
    note a = table_inv_acquired(2)[OF env inv]
    then have wf: "table_wf (acquired_write env w)" by (simp add: table_inv_def)
    obtain ok w' where r: "cache_put_ttl env Mapped_base (Some k) (Some v) ttl w = (ok, w')"
      by fastforce
    show ?thesis
      using cache_put_ttl_spec[OF wf kv(3,4) True r] a r
      by (simp add: kv put_result_def table_inv_def)
  next
    case False
    then show ?thesis using cache_put_ttl_unlocked inv by metis
  qed
qed

lemma table_inv_metrics:
  assumes "peers_ok env" "table_inv n (mem u)"
  shows "table_inv n (mem (snd (add_get_metrics env hit c u)))"
  using assms table_inv_acquired(2)[OF assms]
  by (simp add: mem_add_get_metrics table_inv_def wf_count_get)

lemma table_inv_expired:
  assumes "peers_ok env" "table_inv n (mem u)"
  shows "table_inv n (mem (get_expired env key c u))"
proof (cases "wrlock_rc env (hist u) = 0")
  case True
  have "table_wf (acquired_write env u)" "capacity (hdr (acquired_write env u)) = n"
    using table_inv_acquired(2)[OF assms] by (simp_all add: table_inv_def)
  with get_expired_spec[OF this(1) True, of key c] show ?thesis by (simp add: table_inv_def)
next
  case False
  then show ?thesis using assms by (simp add: get_expired_unlocked)
qed

text \<open>The three ways a GET with good arguments ends, all from the region of the read section.\<close>

lemma cache_get_cases:
  assumes wf: "table_wf (acquired_read env w)" and k: "key_fits key"
    and lock: "rdlock_rc env (hist w) = 0"
  obtains (counted) u hit where "mem u = acquired_read env w"
      "snd (snd (snd (cache_get env Mapped_base (Some key) (Some out) ots w)))
         = snd (add_get_metrics env hit (extra (acquired_read env w) (cstr key)) u)"
  | (expired) u where "mem u = acquired_read env w"
      "snd (snd (snd (cache_get env Mapped_base (Some key) (Some out) ots w)))
         = get_expired env key (extra (acquired_read env w) (cstr key)) u"
proof (cases "abs_map (acquired_read env w) (cstr key)")
  case None
  then show ?thesis
    by (rule cache_get_absent[OF wf k lock, of out ots]) (simp add: that(1))
next
  case (Some it)
  show ?thesis
  proof (cases "item_expired it (get_time env w)")
    case True
    then show ?thesis
      by (rule cache_get_expired[OF wf k lock Some, of out ots]) (simp add: that(2))
  next
    case False
    then show ?thesis
      by (rule cache_get_hit[OF wf k lock Some, of out ots]) (simp add: that(1))
  qed
qed

lemma cache_get_unlocked:
  "rdlock_rc env (hist w) \<noteq> 0 \<Longrightarrow>
   fst (cache_get env base key out ots w) = False \<and>
   mem (snd (snd (snd (cache_get env base key out ots w)))) = mem w"
  using lock_for_read_fails[of env w] by (auto simp: cache_get_def split_beta)

lemma cache_get_rejects:
  "base = Null_base \<or> \<not> valid_key_argument key \<or> out = None \<Longrightarrow>
   cache_get env base key out ots w = (False, out, ots, w)"
  by (auto simp: cache_get_def)

lemma table_inv_get:
  assumes env: "peers_ok env" and inv: "table_inv n (mem w)"
  shows "table_inv n (mem (snd (snd (snd (cache_get env base key out ots w)))))"
proof (cases "base = Null_base \<or> \<not> valid_key_argument key \<or> out = None")
  case True
  then show ?thesis using inv by (simp add: cache_get_rejects)
next
  case False
  then obtain k v where kv: "key = Some k" "out = Some v" "key_fits k" "base = Mapped_base"
    by (cases key; cases out; cases base) (auto simp: valid_key_fits)
  show ?thesis
  proof (cases "rdlock_rc env (hist w) = 0")
    case True
    note a = table_inv_acquired(1)[OF env inv]
    then have wf: "table_wf (acquired_read env w)" by (simp add: table_inv_def)
    have "table_inv n
      (mem (snd (snd (snd (cache_get env Mapped_base (Some k) (Some v) ots w)))))"
    proof (cases rule: cache_get_cases[OF wf kv(3) True, of v ots, case_names counted expired])
      case (counted u hit)
      with a env show ?thesis by (simp add: table_inv_metrics)
    next
      case (expired u)
      with a env show ?thesis by (simp add: table_inv_expired)
    qed
    then show ?thesis by (simp add: kv)
  next
    case False
    with inv show ?thesis by (simp add: cache_get_unlocked)
  qed
qed

lemma cache_update_rejects:
  "base = Null_base \<or> \<not> valid_key_argument key \<or> \<not> valid_value_argument val \<Longrightarrow>
   cache_update env base key val w = (False, w)"
  by (auto simp: cache_update_def)

lemma cache_update_unlocked:
  "wrlock_rc env (hist w) \<noteq> 0 \<Longrightarrow>
   fst (cache_update env base key val w) = False \<and>
   mem (snd (cache_update env base key val w)) = mem w"
  using lock_for_write_fails[of env w] by (auto simp: cache_update_def split_beta)

lemma cache_delete_rejects:
  "base = Null_base \<or> \<not> valid_key_argument key \<Longrightarrow> cache_delete env base key w = (False, w)"
  by (auto simp: cache_delete_def)

lemma cache_delete_unlocked:
  "wrlock_rc env (hist w) \<noteq> 0 \<Longrightarrow>
   fst (cache_delete env base key w) = False \<and> mem (snd (cache_delete env base key w)) = mem w"
  using lock_for_write_fails[of env w] by (auto simp: cache_delete_def split_beta)

lemma table_inv_update:
  assumes env: "peers_ok env" and inv: "table_inv n (mem w)"
  shows "table_inv n (mem (snd (cache_update env base key val w)))"
proof (cases "base = Null_base \<or> \<not> valid_key_argument key \<or> \<not> valid_value_argument val")
  case True
  then show ?thesis using inv by (simp add: cache_update_rejects)
next
  case False
  then obtain k v where kv: "key = Some k" "val = Some v" "key_fits k" "value_fits v"
      "base = Mapped_base"
    by (cases key; cases val; cases base) (auto simp: valid_key_fits valid_value_fits)
  note a = table_inv_acquired(2)[OF env inv]
  then have wf: "table_wf (acquired_write env w)" by (simp add: table_inv_def)
  show ?thesis
    using cache_update_spec[OF wf kv(3,4)] cache_update_unlocked[of env w base key val] a inv kv
    by (cases "wrlock_rc env (hist w) = 0") (simp_all add: table_inv_def)
qed

lemma table_inv_delete:
  assumes env: "peers_ok env" and inv: "table_inv n (mem w)"
  shows "table_inv n (mem (snd (cache_delete env base key w)))"
proof (cases "base = Null_base \<or> \<not> valid_key_argument key")
  case True
  then show ?thesis using inv by (simp add: cache_delete_rejects)
next
  case False
  then obtain k where kv: "key = Some k" "key_fits k" "base = Mapped_base"
    by (cases key; cases base) (auto simp: valid_key_fits)
  note a = table_inv_acquired(2)[OF env inv]
  then have wf: "table_wf (acquired_write env w)" by (simp add: table_inv_def)
  show ?thesis
    using cache_delete_spec[OF wf kv(2)] cache_delete_unlocked[of env w base key] a inv kv
    by (cases "wrlock_rc env (hist w) = 0") (simp_all add: table_inv_def)
qed

lemma table_inv_find_slot:
  assumes "peers_ok env" "table_inv n (mem w)"
  shows "table_inv n (mem (snd (find_slot env base key w)))"
  using assms table_inv_acquired(1)[OF assms]
  by (cases "rdlock_rc env (hist w) = 0")
    (simp_all add: find_slot_def Let_def split_beta lock_for_read_ok lock_for_read_fails)

lemma table_inv_serve_request:
  "peers_ok env \<Longrightarrow> table_inv n (mem w) \<Longrightarrow> table_inv n (mem (serve_request env base req w))"
  by (cases req) (simp_all add: table_inv_find_slot table_inv_put table_inv_get table_inv_update
      table_inv_delete)

lemma table_inv_serve_all:
  "peers_ok env \<Longrightarrow> table_inv n (mem w) \<Longrightarrow> table_inv n (mem (serve_all env base reqs w))"
  unfolding serve_all_def
  by (induction reqs arbitrary: w) (simp_all add: table_inv_serve_request)

end
