(* ===== verification/Lifecycle.thy ===== *)
theory Lifecycle
  imports Discipline
begin

text \<open>
  Creation and attachment of the shared object: \<open>cache_init_lock\<close>, \<open>cache_initialize_region\<close>,
  \<open>cache_validate_layout\<close>, \<open>validate_ready_header\<close>, \<open>cache_open_shared\<close> and
  \<open>cache_close_shared\<close> of \<open>src/cache_engine.cpp\<close>.  The operating system is part of the
  environment: the result of every call is a function of the history, and the resources a
  process holds are read off the history.
\<close>

section \<open>The operating system as an environment\<close>

text \<open>
  \<open>shm_open\<close> gives a descriptor (\<open>-1\<close> on failure) and whether the failure was \<open>EEXIST\<close>;
  \<open>fstat\<close> a result and a size; \<open>mmap\<close> an address and the region mapped there; \<open>shm_unlink\<close> a
  result and whether the failure was \<open>ENOENT\<close>.
\<close>

record os_env = env +
  attr_init_rc :: "history \<Rightarrow> int"
  attr_setpshared_rc :: "history \<Rightarrow> int"
  rwlock_init_rc :: "history \<Rightarrow> int"
  shm_create_r :: "history \<Rightarrow> string \<Rightarrow> int \<times> bool"
  shm_attach_r :: "history \<Rightarrow> string \<Rightarrow> int"
  ftruncate_rc :: "history \<Rightarrow> int"
  fstat_r :: "history \<Rightarrow> int \<times> int"
  mmap_r :: "history \<Rightarrow> (nat \<times> region) option"
  munmap_rc :: "history \<Rightarrow> int"
  close_rc :: "history \<Rightarrow> int"
  shm_unlink_r :: "history \<Rightarrow> string \<Rightarrow> int \<times> bool"

section \<open>Initialising a region\<close>

definition valid_capacity :: "u64 \<Rightarrow> u32 \<Rightarrow> bool" where
  "valid_capacity sz cpc \<longleftrightarrow>
     of_nat sizeof_CacheHeader \<le> sz \<and> 0 < cpc \<and>
     ucast cpc \<le> (sz - of_nat sizeof_CacheHeader) div of_nat sizeof_CacheEntry"

definition cache_init_lock :: "'a os_env_scheme \<Rightarrow> shm_ptr \<Rightarrow> world \<Rightarrow> bool \<times> world" where
  "cache_init_lock env header w =
     (if header = Null_base then (False, w)
      else let rc = attr_init_rc env (hist w); w = emit (Attr_init rc) w
      in if rc \<noteq> 0 then (False, w)
      else let rc = attr_setpshared_rc env (hist w); w = emit (Attr_setpshared rc) w
      in if rc \<noteq> 0 then (False, emit Attr_destroy w)
      else let result = rwlock_init_rc env (hist w);
               w = emit (Rwlock_init result) w;
               w = (if result = 0
                    then set_mem ((mem w)\<lparr>hdr := (hdr (mem w))\<lparr>rwlock := Rw_process_shared\<rparr>\<rparr>) w
                    else w);
               w = emit Attr_destroy w
      in (result = 0, w))"

text \<open>\<open>memset(shm_base, 0, size)\<close>: every byte of the header and of the entry area is zero.\<close>

definition zero_header :: CacheHeader where
  "zero_header = \<lparr>magic = 0, version = 0, capacity = 0, entry_count = 0, data_offset = 0,
     total_hits = 0, total_misses = 0, total_collisions = 0, rwlock = Rw_zero\<rparr>"

definition slot_room :: "u64 \<Rightarrow> nat" where
  "slot_room sz = (unat sz - sizeof_CacheHeader) div sizeof_CacheEntry"

definition zero_region :: "u64 \<Rightarrow> region" where
  "zero_region sz = \<lparr>hdr = zero_header, slots = replicate (slot_room sz) zero_entry\<rparr>"

text \<open>
  The writes of the header before the lock is initialised, one by one in the order of the code,
  and the publishing store.
\<close>

definition init_writes :: "u32 \<Rightarrow> (CacheHeader \<Rightarrow> CacheHeader) list" where
  "init_writes cpc =
     [\<lambda>h. h\<lparr>version := CACHE_VERSION\<rparr>,
      \<lambda>h. h\<lparr>capacity := cpc\<rparr>,
      \<lambda>h. h\<lparr>entry_count := 0\<rparr>,
      \<lambda>h. h\<lparr>data_offset := of_nat sizeof_CacheHeader\<rparr>,
      \<lambda>h. h\<lparr>total_hits := 0\<rparr>,
      \<lambda>h. h\<lparr>total_misses := 0\<rparr>,
      \<lambda>h. h\<lparr>total_collisions := 0\<rparr>]"

definition write_header :: "(CacheHeader \<Rightarrow> CacheHeader) list \<Rightarrow> region \<Rightarrow> region" where
  "write_header fs r = r\<lparr>hdr := fold (\<lambda>f. f) fs (hdr r)\<rparr>"

definition init_header :: "u32 \<Rightarrow> region \<Rightarrow> region" where
  "init_header cpc r = write_header (init_writes cpc) r"

definition publish :: "region \<Rightarrow> region" where
  "publish r = r\<lparr>hdr := (hdr r)\<lparr>magic := CACHE_MAGIC\<rparr>\<rparr>"

definition cache_initialize_region ::
  "'a os_env_scheme \<Rightarrow> shm_ptr \<Rightarrow> u64 \<Rightarrow> u32 \<Rightarrow> world \<Rightarrow> bool \<times> world" where
  "cache_initialize_region env shm_base sz cpc w =
     (if shm_base = Null_base \<or> \<not> valid_capacity sz cpc then (False, w)
      else let w = set_mem (zero_region sz) w;
               w = set_mem (init_header cpc (mem w)) w;
               (ok, w) = cache_init_lock env shm_base w
      in if \<not> ok then (False, w)
      else (True, set_mem (publish (mem w)) w))"

section \<open>Validating a region\<close>

definition cache_validate_layout :: "region option \<Rightarrow> u64 \<Rightarrow> bool" where
  "cache_validate_layout shm_base sz =
     (case shm_base of None \<Rightarrow> False
      | Some r \<Rightarrow>
         of_nat sizeof_CacheHeader \<le> sz \<and>
         magic (hdr r) = CACHE_MAGIC \<and>
         version (hdr r) = CACHE_VERSION \<and> valid_capacity sz (capacity (hdr r)) \<and>
         data_offset (hdr r) = of_nat sizeof_CacheHeader)"

definition validate_ready_header :: "'a env_scheme \<Rightarrow> u64 \<Rightarrow> world \<Rightarrow> bool \<times> world" where
  "validate_ready_header env sz w =
     (if \<not> cache_validate_layout (Some (mem w)) sz then (False, w)
      else let (ok, w) = lock_for_read env w
      in if \<not> ok then (False, w)
      else let valid = entry_count (hdr (mem w)) \<le> capacity (hdr (mem w))
      in (valid, unlock_cache env w))"

section \<open>Opening and closing\<close>

record CacheMapping =
  map_fd :: int
  map_base :: "nat option"
  map_size :: u64
  map_created :: bool

definition SHM_NAME :: string where "SHM_NAME = ''/memsync_shm''"

definition cache_shared_memory_name :: string where
  "cache_shared_memory_name = SHM_NAME"

definition unlink_created_object :: "'a os_env_scheme \<Rightarrow> string \<Rightarrow> world \<Rightarrow> world" where
  "unlink_created_object env name w =
     (let (rc, enoent) = shm_unlink_r env (hist w) name; w = emit (Shm_unlink name rc) w
      in if rc = - 1 \<and> \<not> enoent
         then emit (Perror ''Could not unlink failed shared-memory cache creation'') w else w)"

definition close_descriptor :: "'a os_env_scheme \<Rightarrow> int \<Rightarrow> world \<Rightarrow> world" where
  "close_descriptor env fd w =
     (let rc = close_rc env (hist w); w = emit (Close fd rc) w
      in if rc = - 1
         then emit (Perror ''Could not close shared-memory cache descriptor'') w else w)"

definition unmap_region :: "'a os_env_scheme \<Rightarrow> nat \<Rightarrow> world \<Rightarrow> world" where
  "unmap_region env base w =
     (let rc = munmap_rc env (hist w); w = emit (Munmap base rc) w
      in if rc = - 1 then emit (Perror ''Could not unmap shared-memory cache'') w else w)"

text \<open>The first part of \<open>cache_open_shared\<close>: create exclusively, or attach.\<close>

definition open_object :: "'a os_env_scheme \<Rightarrow> bool \<Rightarrow> string \<Rightarrow> world \<Rightarrow> int \<times> bool \<times> world" where
  "open_object env create_if_missing name w =
     (if create_if_missing then
        let (fd, eexist) = shm_create_r env (hist w) name; w = emit (Shm_create name fd) w
        in if fd \<noteq> - 1 then (fd, True, w)
           else if eexist then
             let fd = shm_attach_r env (hist w) name in (fd, False, emit (Shm_attach name fd) w)
           else (fd, False, w)
      else let fd = shm_attach_r env (hist w) name in (fd, False, emit (Shm_attach name fd) w))"

text \<open>The second part: size a new object, or check the size of an existing one.\<close>

definition size_object :: "'a os_env_scheme \<Rightarrow> bool \<Rightarrow> int \<Rightarrow> string \<Rightarrow> world \<Rightarrow> bool \<times> world" where
  "size_object env created fd name w =
     (if created then
        let rc = ftruncate_rc env (hist w); w = emit (Ftruncate fd rc) w
        in if rc = - 1 then
             let w = emit (Perror ''Could not size newly created shared-memory cache'') w;
                 w = close_descriptor env fd w
             in (False, unlink_created_object env name w)
           else (True, w)
      else let (rc, st_size) = fstat_r env (hist w); w = emit (Fstat fd rc) w
      in if rc = - 1 then
           (False, close_descriptor env fd
              (emit (Perror ''Could not inspect shared-memory cache'') w))
         else if st_size \<noteq> int (unat CACHE_SHARED_MEMORY_SIZE) then
           (False, close_descriptor env fd
              (emit (Cerr (''Shared-memory cache is not ready or has an invalid size; retry after initialization completes.'' @ NL)) w))
         else (True, w))"

text \<open>The third part: initialise a new mapping, or validate an existing one; clean up on failure.\<close>

definition adopt_region ::
  "'a os_env_scheme \<Rightarrow> bool \<Rightarrow> int \<Rightarrow> nat \<Rightarrow> string \<Rightarrow> world \<Rightarrow> bool \<times> world" where
  "adopt_region env created fd base name w =
     (if created then
        let (ok, w) = cache_initialize_region env Mapped_base CACHE_SHARED_MEMORY_SIZE
                        CACHE_DEFAULT_CAPACITY w
        in if \<not> ok then
             let w = emit (Cerr (''Could not initialize shared-memory cache.'' @ NL)) w;
                 w = unmap_region env base w;
                 w = close_descriptor env fd w
             in (False, unlink_created_object env name w)
           else (True, w)
      else let (ok, w) = validate_ready_header env CACHE_SHARED_MEMORY_SIZE w
      in if \<not> ok then
           let w = emit (Cerr (''Shared-memory cache is initializing or has an invalid header/layout; retry after initialization completes.'' @ NL)) w;
               w = unmap_region env base w
           in (False, close_descriptor env fd w)
         else (True, w))"

definition empty_mapping :: CacheMapping where
  "empty_mapping = \<lparr>map_fd = - 1, map_base = None, map_size = CACHE_SHARED_MEMORY_SIZE,
     map_created = False\<rparr>"

definition cache_open_shared ::
  "'a os_env_scheme \<Rightarrow> CacheMapping option \<Rightarrow> bool \<Rightarrow> string option \<Rightarrow> world
     \<Rightarrow> bool \<times> CacheMapping option \<times> world" where
  "cache_open_shared env mapping create_if_missing shared_memory_name w =
     (case mapping of None \<Rightarrow> (False, None, w)
      | Some m \<Rightarrow>
         let name = (case shared_memory_name of None \<Rightarrow> SHM_NAME | Some n \<Rightarrow> n);
             m = empty_mapping;
             (fd, created, w) = open_object env create_if_missing name w
         in if fd = - 1
            then (False, Some m, emit (Perror ''Could not open shared-memory cache'') w)
         else let (ok, w) = size_object env created fd name w
         in if \<not> ok then (False, Some m, w)
         else case mmap_r env (hist w) of
           None \<Rightarrow>
             (let w = emit (Mmap fd None) w;
                  w = emit (Perror ''Could not map shared-memory cache'') w;
                  w = close_descriptor env fd w
              in (False, Some m, if created then unlink_created_object env name w else w))
         | Some (base, r) \<Rightarrow>
             (let w = set_mem r (emit (Mmap fd (Some base)) w);
                  (ok, w) = adopt_region env created fd base name w
              in if \<not> ok then (False, Some m, w)
                 else (True, Some (m\<lparr>map_fd := fd, map_base := Some base,
                                     map_created := created\<rparr>), w)))"

definition cache_close_shared ::
  "'a os_env_scheme \<Rightarrow> CacheMapping option \<Rightarrow> world \<Rightarrow> CacheMapping option \<times> world" where
  "cache_close_shared env mapping w =
     (case mapping of None \<Rightarrow> (None, w)
      | Some m \<Rightarrow>
         let w = (case map_base m of None \<Rightarrow> w | Some base \<Rightarrow> unmap_region env base w);
             w = (if map_fd m \<noteq> - 1 then close_descriptor env (map_fd m) w else w)
         in (Some (m\<lparr>map_fd := - 1, map_base := None, map_size := 0, map_created := False\<rparr>), w))"

section \<open>Lemmas on initialisation\<close>

lemma valid_capacity_nat:
  "valid_capacity sz cpc \<longleftrightarrow>
     sizeof_CacheHeader \<le> unat sz \<and> 0 < unat cpc \<and> unat cpc \<le> slot_room sz"
proof (cases "104 \<le> sz")
  case True
  then have "unat (sz - 104) = unat sz - 104" by (simp add: unat_sub)
  then have "unat ((sz - 104) div 344) = (unat sz - 104) div 344" by (simp add: unat_div)
  with True show ?thesis
    by (simp add: valid_capacity_def slot_room_def word_le_nat_alt word_less_nat_alt)
next
  case False
  then show ?thesis by (simp add: valid_capacity_def word_le_nat_alt)
qed

text \<open>The region a successful initialisation publishes.\<close>

definition locked_region :: "u64 \<Rightarrow> u32 \<Rightarrow> region" where
  "locked_region sz cpc =
     (let r = init_header cpc (zero_region sz) in r\<lparr>hdr := (hdr r)\<lparr>rwlock := Rw_process_shared\<rparr>\<rparr>)"

definition fresh_region :: "u64 \<Rightarrow> u32 \<Rightarrow> region" where
  "fresh_region sz cpc = publish (locked_region sz cpc)"

lemma fresh_region_simps [simp]:
  "slots (fresh_region sz cpc) = replicate (slot_room sz) zero_entry"
  "magic (hdr (fresh_region sz cpc)) = CACHE_MAGIC"
  "version (hdr (fresh_region sz cpc)) = CACHE_VERSION"
  "capacity (hdr (fresh_region sz cpc)) = cpc"
  "entry_count (hdr (fresh_region sz cpc)) = 0"
  "data_offset (hdr (fresh_region sz cpc)) = 104"
  "total_hits (hdr (fresh_region sz cpc)) = 0"
  "total_misses (hdr (fresh_region sz cpc)) = 0"
  "total_collisions (hdr (fresh_region sz cpc)) = 0"
  "rwlock (hdr (fresh_region sz cpc)) = Rw_process_shared"
  by (simp_all add: fresh_region_def publish_def locked_region_def init_header_def
      write_header_def init_writes_def zero_region_def zero_header_def Let_def)

lemma cache_init_lock_ok:
  assumes "cache_init_lock env base w = (True, w')"
  shows "mem w' = (mem w)\<lparr>hdr := (hdr (mem w))\<lparr>rwlock := Rw_process_shared\<rparr>\<rparr>"
  using assms by (auto simp: cache_init_lock_def Let_def split: if_splits)

lemma cache_init_lock_mem:
  "magic (hdr (mem (snd (cache_init_lock env base w)))) = magic (hdr (mem w))"
  by (simp add: cache_init_lock_def Let_def)

lemma cache_initialize_region_ok:
  assumes "cache_initialize_region env base sz cpc w = (True, w')"
  shows "mem w' = fresh_region sz cpc" "valid_capacity sz cpc"
  using assms
  by (auto simp: cache_initialize_region_def fresh_region_def locked_region_def Let_def
      split: if_splits prod.splits dest!: cache_init_lock_ok)

text \<open>
  A failed initialisation has not published: the region is untouched, or its magic is zero.
\<close>

lemma cache_initialize_region_fails:
  assumes "cache_initialize_region env base sz cpc w = (False, w')"
  shows "w' = w \<or> magic (hdr (mem w')) = 0"
proof (cases "base = Null_base \<or> \<not> valid_capacity sz cpc")
  case True
  with assms show ?thesis by (auto simp: cache_initialize_region_def)
next
  case False
  let ?w = "set_mem (init_header cpc (zero_region sz)) w"
  have "w' = snd (cache_init_lock env base ?w)"
    using assms False
    by (auto simp: cache_initialize_region_def Let_def set_mem_def split: if_splits prod.splits)
  then show ?thesis
    using cache_init_lock_mem[of env base ?w]
    by (simp add: init_header_def write_header_def init_writes_def zero_region_def zero_header_def)
qed

lemma view_fresh: "p < cap (fresh_region sz cpc) \<Longrightarrow> unat cpc \<le> slot_room sz \<Longrightarrow>
   view (fresh_region sz cpc) p = Free"
  by (simp add: view_def zero_entry_def)

lemma fresh_region_wf:
  assumes v: "valid_capacity sz cpc"
    and b: "sizeof_CacheHeader + unat cpc * sizeof_CacheEntry \<le> 4294967296"
  shows "table_wf (fresh_region sz cpc)"
proof -
  let ?r = "fresh_region sz cpc"
  from v have n: "0 < unat cpc" "unat cpc \<le> slot_room sz" by (simp_all add: valid_capacity_nat)
  have "layout_ok ?r" using n b by (simp add: layout_ok_def)
  moreover have t: "table ?r = replicate (unat cpc) zero_entry"
    using n by (simp add: table_def min_def)
  have "list_all entry_ok (table ?r)"
    by (simp add: t list_all_iff entry_ok_def zero_entry_def)
  moreover have "count_if occupied (table ?r) = 0" by (simp add: t zero_entry_def)
  moreover have "probe_ok (cap ?r) (home ?r) (view ?r)"
    using n by (intro probe_ok_unheld) (simp add: view_fresh)
  ultimately show ?thesis by (simp add: table_wf_def)
qed

lemma fresh_region_abs:
  assumes "valid_capacity sz cpc"
    and "sizeof_CacheHeader + unat cpc * sizeof_CacheEntry \<le> 4294967296"
  shows "abs_map (fresh_region sz cpc) = (\<lambda>k. None)"
  using assms fresh_region_wf[OF assms] abs_map_NoneI[of "fresh_region sz cpc"]
  by (auto simp: fun_eq_iff view_fresh valid_capacity_nat layout_wf)

lemma default_capacity_ok:
  "valid_capacity CACHE_SHARED_MEMORY_SIZE CACHE_DEFAULT_CAPACITY"
  "sizeof_CacheHeader + unat CACHE_DEFAULT_CAPACITY * sizeof_CacheEntry \<le> 4294967296"
  by (simp_all add: valid_capacity_nat slot_room_def CACHE_SHARED_MEMORY_SIZE_def
      CACHE_DEFAULT_CAPACITY_def)

section \<open>Publication\<close>

text \<open>
  The states of the region during initialisation: after the \<open>memset\<close> and \<open>i\<close> header writes,
  then with the lock initialised, then published.
\<close>

definition init_stage :: "u64 \<Rightarrow> u32 \<Rightarrow> nat \<Rightarrow> region" where
  "init_stage sz cpc i =
     (if i \<le> length (init_writes cpc) then write_header (take i (init_writes cpc)) (zero_region sz)
      else if i = Suc (length (init_writes cpc)) then locked_region sz cpc
      else fresh_region sz cpc)"

lemma magic_write_header:
  "set fs \<subseteq> set (init_writes cpc) \<Longrightarrow> magic (hdr (write_header fs r)) = magic (hdr r)"
proof -
  assume fs: "set fs \<subseteq> set (init_writes cpc)"
  have "magic (fold (\<lambda>f. f) fs h) = magic h" for h
    using fs by (induction fs arbitrary: h) (auto simp: init_writes_def)
  then show ?thesis by (simp add: write_header_def)
qed

lemma magic_init_stage:
  assumes "i \<le> Suc (length (init_writes cpc))"
  shows "magic (hdr (init_stage sz cpc i)) = 0"
  using assms magic_write_header[OF set_take_subset, of i cpc "zero_region sz"]
    magic_write_header[OF subset_refl, of cpc "zero_region sz"]
  by (auto simp: init_stage_def locked_region_def init_header_def zero_region_def zero_header_def
      Let_def)

end
