(* ===== verification/Resources.thy ===== *)
theory Resources
  imports Lifecycle
begin

text \<open>
  What \<open>cache_open_shared\<close> and \<open>cache_close_shared\<close> promise: a region is published only once it
  is complete, every failure gives back all descriptors, mappings and names it took, and a
  process that attaches touches the lock of a published region only.
\<close>

section \<open>Publication\<close>

lemma unpublished_invalid:
  "magic (hdr r) = 0 \<Longrightarrow> \<not> cache_validate_layout (Some r) sz"
  by (simp add: cache_validate_layout_def CACHE_MAGIC_def)

lemma init_stage_unpublished:
  "i \<le> Suc (length (init_writes cpc)) \<Longrightarrow> \<not> cache_validate_layout (Some (init_stage sz cpc i)) sz'"
  by (rule unpublished_invalid) (rule magic_init_stage)

lemma fresh_region_valid:
  assumes "valid_capacity sz cpc"
  shows "cache_validate_layout (Some (fresh_region sz cpc)) sz"
proof -
  have "of_nat sizeof_CacheHeader \<le> sz" using assms by (simp only: valid_capacity_def)
  with assms show ?thesis by (simp add: cache_validate_layout_def)
qed

section \<open>Resources held by a process\<close>

text \<open>
  Descriptors, mappings and names, read off the history.  A successful \<open>shm_open\<close> adds a
  descriptor, and one with \<open>O_CREAT | O_EXCL\<close> a name as well; \<open>close\<close>, \<open>munmap\<close> and
  \<open>shm_unlink\<close> give one back.  Giving back something that is not held changes nothing here
  and is counted in \<open>faults\<close>.
\<close>

record resources =
  open_fds :: "int list"
  mapped :: "nat list"
  created_names :: "string list"
  faults :: nat

definition no_resources :: resources where
  "no_resources = \<lparr>open_fds = [], mapped = [], created_names = [], faults = 0\<rparr>"

fun track :: "event \<Rightarrow> resources \<Rightarrow> resources" where
  "track (Shm_create name fd) s =
     (if fd = - 1 then s
      else s\<lparr>open_fds := fd # open_fds s, created_names := name # created_names s\<rparr>)"
| "track (Shm_attach name fd) s = (if fd = - 1 then s else s\<lparr>open_fds := fd # open_fds s\<rparr>)"
| "track (Mmap fd (Some base)) s = s\<lparr>mapped := base # mapped s\<rparr>"
| "track (Close fd rc) s =
     (if fd \<in> set (open_fds s) then s\<lparr>open_fds := remove1 fd (open_fds s)\<rparr>
      else s\<lparr>faults := Suc (faults s)\<rparr>)"
| "track (Munmap base rc) s =
     (if base \<in> set (mapped s) then s\<lparr>mapped := remove1 base (mapped s)\<rparr>
      else s\<lparr>faults := Suc (faults s)\<rparr>)"
| "track (Shm_unlink name rc) s = s\<lparr>created_names := remove1 name (created_names s)\<rparr>"
| "track _ s = s"

fun resources_from :: "resources \<Rightarrow> history \<Rightarrow> resources" where
  "resources_from s [] = s"
| "resources_from s (ev # h) = track ev (resources_from s h)"

definition resources_of :: "history \<Rightarrow> resources" where
  "resources_of h = resources_from no_resources h"

lemma resources_of_Cons [simp]: "resources_of (ev # h) = track ev (resources_of h)"
  by (simp add: resources_of_def)

lemma resources_quiet [simp]:
  "resources_of (hist (snd (lock_for_read env w))) = resources_of (hist w)"
  "resources_of (hist (snd (lock_for_write env w))) = resources_of (hist w)"
  "resources_of (hist (unlock_cache env w)) = resources_of (hist w)"
  by (simp_all add: lock_for_read_def lock_for_write_def unlock_cache_def Let_def)

lemma resources_init_lock [simp]:
  "resources_of (hist (snd (cache_init_lock env base w))) = resources_of (hist w)"
  by (simp add: cache_init_lock_def Let_def)

lemma resources_initialize [simp]:
  "resources_of (hist (snd (cache_initialize_region env base sz cpc w))) = resources_of (hist w)"
  by (simp add: cache_initialize_region_def Let_def split_beta)

lemma resources_validate [simp]:
  "resources_of (hist (snd (validate_ready_header env sz w))) = resources_of (hist w)"
  by (simp add: validate_ready_header_def Let_def split_beta)

text \<open>Giving back what was taken last.\<close>

lemma resources_close [simp]:
  "resources_of (hist (close_descriptor env fd w)) = track (Close fd 0) (resources_of (hist w))"
  by (simp add: close_descriptor_def Let_def)

lemma resources_unmap [simp]:
  "resources_of (hist (unmap_region env base w)) = track (Munmap base 0) (resources_of (hist w))"
  by (simp add: unmap_region_def Let_def)

lemma resources_unlink [simp]:
  "resources_of (hist (unlink_created_object env name w))
     = track (Shm_unlink name 0) (resources_of (hist w))"
  by (simp add: unlink_created_object_def Let_def split_beta)

text \<open>The three parts of opening.\<close>

definition taken :: "int \<Rightarrow> bool \<Rightarrow> string \<Rightarrow> resources \<Rightarrow> resources" where
  "taken fd created name s =
     s\<lparr>open_fds := fd # open_fds s,
       created_names := (if created then name # created_names s else created_names s)\<rparr>"

lemma taken_given_back [simp]:
  "track (Close fd rc) (taken fd False name s) = s"
  "track (Shm_unlink name rc) (track (Close fd rc') (taken fd True name s)) = s"
  by (simp_all add: taken_def)

lemma mapped_given_back [simp]:
  "track (Munmap base rc) (track (Mmap fd (Some base)) s) = s"
  by simp

lemma open_object_resources:
  assumes "open_object env create name w = (fd, created, w')"
  shows "resources_of (hist w') =
           (if fd = - 1 then resources_of (hist w) else taken fd created name (resources_of (hist w)))"
  using assms by (auto simp: open_object_def Let_def taken_def split: if_splits prod.splits)

lemma open_object_created:
  assumes "open_object env create name w = (fd, created, w')" "created"
  shows "create" "fd \<noteq> - 1"
  using assms by (auto simp: open_object_def Let_def split: if_splits prod.splits)

lemma size_object_resources:
  assumes "size_object env created fd name w = (ok, w')"
    and "resources_of (hist w) = taken fd created name s"
  shows "resources_of (hist w') = (if ok then taken fd created name s else s)"
  using assms by (auto simp: size_object_def Let_def split: if_splits prod.splits simp del: track.simps(4,6))

lemma initialize_resources:
  "cache_initialize_region env base sz cpc w = (ok, w') \<Longrightarrow>
   resources_of (hist w') = resources_of (hist w)"
  using resources_initialize[of env base sz cpc w] by simp

lemma validate_resources:
  "validate_ready_header env sz w = (ok, w') \<Longrightarrow> resources_of (hist w') = resources_of (hist w)"
  using resources_validate[of env sz w] by simp

lemma adopt_region_resources:
  assumes "adopt_region env created fd base name w = (ok, w')"
    and s: "resources_of (hist w) = track (Mmap fd' (Some base)) (taken fd created name s)"
  shows "resources_of (hist w') =
           (if ok then track (Mmap fd' (Some base)) (taken fd created name s) else s)"
  using assms
  by (cases created)
    (auto simp: adopt_region_def Let_def taken_def split: if_splits prod.splits
      dest!: initialize_resources validate_resources)

section \<open>Opening and closing\<close>

definition adds_mapping :: "CacheMapping \<Rightarrow> string \<Rightarrow> resources \<Rightarrow> resources" where
  "adds_mapping m name s =
     s\<lparr>open_fds := map_fd m # open_fds s,
       mapped := (case map_base m of None \<Rightarrow> mapped s | Some base \<Rightarrow> base # mapped s),
       created_names := (if map_created m then name # created_names s else created_names s)\<rparr>"

abbreviation chosen_name :: "string option \<Rightarrow> string" where
  "chosen_name nm \<equiv> (case nm of None \<Rightarrow> SHM_NAME | Some n \<Rightarrow> n)"

text \<open>The ways \<open>cache_open_shared\<close> ends, stage by stage.\<close>

lemma cache_open_shared_cases:
  assumes res: "cache_open_shared env (Some m) create nm w = (ok, m', w')"
  obtains (no_object) w1 where "open_object env create (chosen_name nm) w = (- 1, False, w1)"
      "\<not> ok" "m' = Some empty_mapping" "w' = emit (Perror ''Could not open shared-memory cache'') w1"
  | (bad_size) fd created w1 where
      "open_object env create (chosen_name nm) w = (fd, created, w1)" "fd \<noteq> - 1"
      "size_object env created fd (chosen_name nm) w1 = (False, w')"
      "\<not> ok" "m' = Some empty_mapping"
  | (no_mapping) fd created w1 w2 where
      "open_object env create (chosen_name nm) w = (fd, created, w1)" "fd \<noteq> - 1"
      "size_object env created fd (chosen_name nm) w1 = (True, w2)" "\<not> ok" "m' = Some empty_mapping"
      "w' = (let v = close_descriptor env fd (emit (Perror ''Could not map shared-memory cache'')
                       (emit (Mmap fd None) w2))
             in if created then unlink_created_object env (chosen_name nm) v else v)"
  | (mapped) fd created w1 w2 base r where
      "open_object env create (chosen_name nm) w = (fd, created, w1)" "fd \<noteq> - 1"
      "size_object env created fd (chosen_name nm) w1 = (True, w2)"
      "mmap_r env (hist w2) = Some (base, r)"
      "adopt_region env created fd base (chosen_name nm) (set_mem r (emit (Mmap fd (Some base)) w2))
         = (ok, w')"
      "m' = Some (if ok then empty_mapping\<lparr>map_fd := fd, map_base := Some base,
                     map_created := created\<rparr> else empty_mapping)"
proof -
  obtain fd created w1 where o: "open_object env create (chosen_name nm) w = (fd, created, w1)"
    by (metis prod_cases3)
  obtain sok w2 where s: "size_object env created fd (chosen_name nm) w1 = (sok, w2)" by fastforce
  note defs = res[unfolded cache_open_shared_def Let_def option.case o prod.case s]
  show ?thesis
  proof (cases "fd = - 1")
    case True
    then have "\<not> created" using open_object_created(2)[OF o] by blast
    with True o defs show ?thesis by (intro no_object[of w1]) simp_all
  next
    case fd: False
    show ?thesis
    proof (cases sok)
      case False
      with fd s defs show ?thesis by (intro bad_size[OF o fd]) simp_all
    next
      case True
      with fd defs s show ?thesis
        using no_mapping[OF o fd, of w2] mapped[OF o fd, of w2]
        by (auto simp: Let_def split: option.splits if_splits prod.splits)
    qed
  qed
qed

lemma cache_open_shared_resources:
  assumes "cache_open_shared env (Some m) create nm w = (ok, m', w')"
  shows "resources_of (hist w') =
    (if ok then adds_mapping (the m') (chosen_name nm) (resources_of (hist w))
     else resources_of (hist w))"
  using assms
proof (cases rule: cache_open_shared_cases)
  case (no_object w1)
  then show ?thesis using open_object_resources by fastforce
next
  case (bad_size fd created w1)
  then show ?thesis using open_object_resources[OF bad_size(1)] size_object_resources by fastforce
next
  case (no_mapping fd created w1 w2)
  have "resources_of (hist w2) = taken fd created (chosen_name nm) (resources_of (hist w))"
    using open_object_resources[OF no_mapping(1)] size_object_resources[OF no_mapping(3)] no_mapping
    by simp
  with no_mapping show ?thesis by (simp add: Let_def taken_def)
next
  case (mapped fd created w1 w2 base r)
  have "resources_of (hist w2) = taken fd created (chosen_name nm) (resources_of (hist w))"
    using open_object_resources[OF mapped(1)] size_object_resources[OF mapped(3)] mapped by simp
  then have "resources_of (hist w') =
      (if ok then track (Mmap fd (Some base))
         (taken fd created (chosen_name nm) (resources_of (hist w))) else resources_of (hist w))"
    by (intro adopt_region_resources[OF mapped(5)]) simp
  with mapped show ?thesis by (simp add: adds_mapping_def taken_def)
qed

lemma cache_close_shared_resources:
  assumes "resources_of (hist w) = adds_mapping m name s" "map_fd m \<noteq> - 1"
  shows "resources_of (hist (snd (cache_close_shared env (Some m) w))) =
           s\<lparr>created_names := (if map_created m then name # created_names s else created_names s)\<rparr>"
  using assms by (simp add: cache_close_shared_def adds_mapping_def split: option.split)

text \<open>Closing leaves an empty mapping, and closing that again does nothing.\<close>

lemma cache_close_shared_twice:
  "cache_close_shared env (fst (cache_close_shared env m w)) w' =
     (fst (cache_close_shared env m w), w')"
  by (cases m) (simp_all add: cache_close_shared_def Let_def)

section \<open>What a successful open delivers\<close>

lemma adopt_created:
  assumes "adopt_region env True fd base name w = (True, w')"
  shows "mem w' = fresh_region CACHE_SHARED_MEMORY_SIZE CACHE_DEFAULT_CAPACITY"
  using assms by (auto simp: adopt_region_def Let_def split: if_splits prod.splits
      dest!: cache_initialize_region_ok(1))

lemma validate_ready_header_ok:
  assumes "validate_ready_header env sz w = (True, w')"
  shows "cache_validate_layout (Some (mem w)) sz" "rdlock_rc env (hist w) = 0"
    "mem w' = acquired_read env w" "entry_count (hdr (mem w')) \<le> capacity (hdr (mem w'))"
  using assms lock_for_read_fails[of env w]
  by (cases "rdlock_rc env (hist w) = 0";
      auto simp: validate_ready_header_def Let_def lock_for_read_ok split: if_splits prod.splits)+

lemma adopt_attached:
  assumes "adopt_region env False fd base name w = (True, w')"
  shows "cache_validate_layout (Some (mem w)) CACHE_SHARED_MEMORY_SIZE"
    "mem w' = acquired_read env w" "entry_count (hdr (mem w')) \<le> capacity (hdr (mem w'))"
proof -
  have "validate_ready_header env CACHE_SHARED_MEMORY_SIZE w = (True, w')"
    using assms by (auto simp: adopt_region_def Let_def split: if_splits prod.splits)
  note validate_ready_header_ok[OF this]
  then show "cache_validate_layout (Some (mem w)) CACHE_SHARED_MEMORY_SIZE"
    "mem w' = acquired_read env w" "entry_count (hdr (mem w')) \<le> capacity (hdr (mem w'))"
    by blast+
qed

text \<open>A process that is refused by the layout check has not touched the lock.\<close>

lemma validate_ready_header_refuses:
  "\<not> cache_validate_layout (Some (mem w)) sz \<Longrightarrow> validate_ready_header env sz w = (False, w)"
  by (simp add: validate_ready_header_def)

text \<open>A layout that passes the check keeps every slot address inside the mapping.\<close>

lemma validated_layout_ok:
  assumes "cache_validate_layout (Some r) sz" "length (slots r) = slot_room sz"
    and "unat sz \<le> 4294967296"
  shows "layout_ok r"
proof -
  have v: "valid_capacity sz (capacity (hdr r))" and d: "data_offset (hdr r) = 104"
    using assms(1) by (simp_all add: cache_validate_layout_def)
  from v have c: "104 \<le> unat sz" "0 < cap r" "cap r \<le> (unat sz - 104) div 344"
    by (simp_all add: valid_capacity_nat slot_room_def)
  from c(3) have "cap r * 344 \<le> unat sz - 104"
    using div_times_less_eq_dividend[of "unat sz - 104" 344] by (meson mult_le_mono1 order_trans)
  with c assms(2,3) d show ?thesis by (simp add: layout_ok_def slot_room_def)
qed

lemma phase_validate_ready_header:
  "unlock_ok env \<Longrightarrow> phase (hist w) = Idle \<Longrightarrow>
   phase (hist (snd (validate_ready_header env sz w))) = Idle"
  by (simp add: validate_ready_header_def Let_def split_beta)

lemma phase_initialize_region [simp]:
  "phase (hist (snd (cache_initialize_region env base sz cpc w))) = phase (hist w)"
  by (simp add: cache_initialize_region_def cache_init_lock_def Let_def split_beta)

lemma phase_helpers [simp]:
  "phase (hist (close_descriptor env fd w)) = phase (hist w)"
  "phase (hist (unmap_region env base w)) = phase (hist w)"
  "phase (hist (unlink_created_object env name w)) = phase (hist w)"
  by (simp_all add: close_descriptor_def unmap_region_def unlink_created_object_def Let_def split_beta)

lemma phase_adopt_region:
  "unlock_ok env \<Longrightarrow> phase (hist w) = Idle \<Longrightarrow>
   phase (hist (snd (adopt_region env created fd base name w))) = Idle"
  by (simp add: adopt_region_def Let_def split_beta phase_validate_ready_header)

lemma phase_object [simp]:
  "phase (hist (snd (snd (open_object env create name w)))) = phase (hist w)"
  "phase (hist (snd (size_object env created fd name w))) = phase (hist w)"
  by (simp_all add: open_object_def size_object_def Let_def split_beta)

lemma phase_cache_open_shared:
  assumes "unlock_ok env" "phase (hist w) = Idle"
  shows "phase (hist (snd (snd (cache_open_shared env m create nm w)))) = Idle"
  using assms
  by (simp add: cache_open_shared_def Let_def split_beta phase_adopt_region split: option.split)

lemma phase_cache_close_shared [simp]:
  "phase (hist (snd (cache_close_shared env m w))) = phase (hist w)"
  by (simp add: cache_close_shared_def Let_def split: option.split)

lemma cache_open_shared_mapping:
  assumes "cache_open_shared env (Some m) create nm w = (True, m', w')"
  obtains fd created base r where
    "m' = Some \<lparr>map_fd = fd, map_base = Some base, map_size = CACHE_SHARED_MEMORY_SIZE,
                map_created = created\<rparr>"
    "fd \<noteq> - 1" "created \<Longrightarrow> create"
    "created \<Longrightarrow> mem w' = fresh_region CACHE_SHARED_MEMORY_SIZE CACHE_DEFAULT_CAPACITY"
    "\<not> created \<Longrightarrow> cache_validate_layout (Some r) CACHE_SHARED_MEMORY_SIZE \<and>
       entry_count (hdr (mem w')) \<le> capacity (hdr (mem w')) \<and>
       (\<exists>v. mmap_r env v = Some (base, r)) \<and> (\<exists>v. mem v = r \<and> mem w' = acquired_read env v)"
  using assms
proof (cases rule: cache_open_shared_cases)
  case (mapped fd created w1 w2 base r)
  let ?v = "set_mem r (emit (Mmap fd (Some base)) w2)"
  show ?thesis
  proof (rule that)
    show "m' = Some \<lparr>map_fd = fd, map_base = Some base, map_size = CACHE_SHARED_MEMORY_SIZE,
                map_created = created\<rparr>" using mapped by (simp add: empty_mapping_def)
    show "fd \<noteq> - 1" by (rule mapped(2))
    show "create" if created by (rule open_object_created(1)[OF mapped(1) that])
    show "mem w' = fresh_region CACHE_SHARED_MEMORY_SIZE CACHE_DEFAULT_CAPACITY" if created
      using mapped(5) that adopt_created by simp
    show "cache_validate_layout (Some r) CACHE_SHARED_MEMORY_SIZE \<and>
       entry_count (hdr (mem w')) \<le> capacity (hdr (mem w')) \<and>
       (\<exists>v. mmap_r env v = Some (base, r)) \<and> (\<exists>v. mem v = r \<and> mem w' = acquired_read env v)"
      if "\<not> created"
      using adopt_attached[of env fd base "chosen_name nm" ?v w'] mapped(4,5) that
      by (auto intro!: exI[of _ ?v])
  qed
qed auto

section \<open>Sessions\<close>

text \<open>The table operations take and give back no descriptor, mapping or name.\<close>

lemma resources_read_clock [simp]:
  "resources_of (hist (snd (read_clock env w))) = resources_of (hist w)"
  by (simp add: read_clock_eq)

lemma resources_choose_slot [simp]:
  "resources_of (hist (snd (choose_slot env key w))) = resources_of (hist w)"
  by (simp add: choose_slot_def split_beta Let_def)

lemma resources_metrics [simp]:
  "resources_of (hist (snd (add_get_metrics env hit c w))) = resources_of (hist w)"
  "resources_of (hist (get_expired env key c w)) = resources_of (hist w)"
  by (simp_all add: add_get_metrics_def get_expired_def split_beta Let_def)

lemma resources_operations [simp]:
  "resources_of (hist (snd (find_slot env base key w))) = resources_of (hist w)"
  "resources_of (hist (snd (cache_put_ttl env base key val ttl w))) = resources_of (hist w)"
  "resources_of (hist (snd (snd (snd (cache_get env base key out ots w))))) = resources_of (hist w)"
  "resources_of (hist (snd (cache_update env base key val w))) = resources_of (hist w)"
  "resources_of (hist (snd (cache_delete env base key w))) = resources_of (hist w)"
  by (simp_all add: find_slot_def cache_put_ttl_def cache_get_def cache_update_def cache_delete_def
      split_beta Let_def split: probe_exit.split)

lemma resources_serve_all [simp]:
  "resources_of (hist (serve_all env base reqs w)) = resources_of (hist w)"
proof -
  have "resources_of (hist (serve_request env base req w)) = resources_of (hist w)" for req w
    by (cases req) simp_all
  then show ?thesis unfolding serve_all_def by (induction reqs arbitrary: w) simp_all
qed

section \<open>The lock is not touched before publication\<close>

fun is_lock_event :: "event \<Rightarrow> bool" where
  "is_lock_event (Read_lock rc) = True"
| "is_lock_event (Write_lock rc) = True"
| "is_lock_event (Unlock rc) = True"
| "is_lock_event _ = False"

definition lock_events :: "history \<Rightarrow> event list" where
  "lock_events h = filter is_lock_event h"

lemma lock_events_Cons [simp]:
  "lock_events (ev # h) = (if is_lock_event ev then ev # lock_events h else lock_events h)"
  by (simp add: lock_events_def)

lemma lock_events_helpers [simp]:
  "lock_events (hist (close_descriptor env fd w)) = lock_events (hist w)"
  "lock_events (hist (unmap_region env base w)) = lock_events (hist w)"
  "lock_events (hist (snd (snd (open_object env create name w)))) = lock_events (hist w)"
  by (simp_all add: close_descriptor_def unmap_region_def open_object_def Let_def split_beta)

lemma lock_events_size_object [simp]:
  "lock_events (hist (snd (size_object env created fd name w))) = lock_events (hist w)"
  by (simp add: size_object_def unlink_created_object_def Let_def split_beta)

lemma open_object_attach: "\<not> fst (snd (open_object env False name w))"
  by (simp add: open_object_def Let_def)

lemma attach_unpublished:
  assumes unpub: "\<And>h base r. mmap_r env h = Some (base, r) \<Longrightarrow>
      \<not> cache_validate_layout (Some r) CACHE_SHARED_MEMORY_SIZE"
    and res: "cache_open_shared env (Some m) False nm w = (ok, m', w')"
  shows "\<not> ok \<and> lock_events (hist w') = lock_events (hist w)"
  using res
proof (cases rule: cache_open_shared_cases)
  case (no_object w1)
  then show ?thesis using lock_events_helpers(3)[of env False "chosen_name nm" w] by simp
next
  case (bad_size fd created w1)
  then show ?thesis
    using lock_events_helpers(3)[of env False "chosen_name nm" w]
      lock_events_size_object[of env created fd "chosen_name nm" w1] by simp
next
  case (no_mapping fd created w1 w2)
  then show ?thesis
    using lock_events_helpers(3)[of env False "chosen_name nm" w]
      lock_events_size_object[of env created fd "chosen_name nm" w1]
      open_object_attach[of env "chosen_name nm" w] by simp
next
  case (mapped fd created w1 w2 base r)
  have "\<not> created" using open_object_attach[of env "chosen_name nm" w] mapped(1) by simp
  then show ?thesis
    using mapped unpub[OF mapped(4)] lock_events_helpers(3)[of env False "chosen_name nm" w]
      lock_events_size_object[of env created fd "chosen_name nm" w1]
    by (auto simp: adopt_region_def validate_ready_header_refuses)
qed

end
