(* ===== verification/Text.thy ===== *)
theory Text
  imports CString
begin

text \<open>
  The text the bridge and the benchmark read and write: decimal numbers as an \<open>ostream\<close> prints
  them, \<open>std::strtoul\<close> with base 10, the two number parsers built on it (the TTL argument of
  \<open>src/ui_bridge.cpp\<close> and \<open>parse_positive\<close> of \<open>bench/cache_benchmark.cpp\<close>), the JSON string
  writer \<open>print_json_string\<close> and the CSV quoting \<open>csv_quote\<close>, with reference readers for the
  last two.
\<close>

section \<open>Decimal numbers\<close>

abbreviation code :: "char \<Rightarrow> nat" where
  "code c \<equiv> of_char c"

definition is_digit :: "char \<Rightarrow> bool" where
  "is_digit c \<longleftrightarrow> 48 \<le> code c \<and> code c \<le> 57"

definition digit_value :: "char \<Rightarrow> nat" where
  "digit_value c = code c - 48"

definition digit_char :: "nat \<Rightarrow> char" where
  "digit_char d = char_of (48 + d)"

fun decimal :: "nat \<Rightarrow> string" where
  "decimal n = (if n < 10 then [digit_char n] else decimal (n div 10) @ [digit_char (n mod 10)])"

declare decimal.simps [simp del]

definition number :: "string \<Rightarrow> nat" where
  "number ds = foldl (\<lambda>n c. 10 * n + digit_value c) 0 ds"

lemma code_digit_char: "d < 10 \<Longrightarrow> code (digit_char d) = 48 + d"
  by (simp add: digit_char_def)

lemma digit_char_simps [simp]:
  "d < 10 \<Longrightarrow> is_digit (digit_char d)" "d < 10 \<Longrightarrow> digit_value (digit_char d) = d"
  by (simp_all add: is_digit_def digit_value_def code_digit_char)

lemma decimal_digits: "list_all is_digit (decimal n)"
  by (induction n rule: decimal.induct) (subst decimal.simps, simp)

lemma decimal_not_Nil [simp]: "decimal n \<noteq> []"
  by (subst decimal.simps) simp

lemma number_snoc: "number (ds @ [c]) = 10 * number ds + digit_value c"
  by (simp add: number_def)

lemma number_decimal [simp]: "number (decimal n) = n"
proof (induction n rule: decimal.induct)
  case (1 n)
  show ?case
  proof (cases "n < 10")
    case True
    then show ?thesis by (subst decimal.simps) (simp add: number_def)
  next
    case False
    with 1 show ?thesis by (subst decimal.simps) (simp add: number_snoc)
  qed
qed

lemma NUL_not_digit [simp]: "\<not> is_digit NUL"
  by (simp add: is_digit_def)

lemma NUL_notin_decimal [simp]: "NUL \<notin> set (decimal n)"
  using decimal_digits[of n] by (auto simp: list_all_iff)

section \<open>\<open>strtoul\<close>\<close>

definition is_space :: "char \<Rightarrow> bool" where
  "is_space c \<longleftrightarrow> code c \<in> {9, 10, 11, 12, 13, 32}"

fun split_sign :: "string \<Rightarrow> bool \<times> string" where
  "split_sign [] = (False, [])"
| "split_sign (c # cs) =
     (if c = CHR ''-'' then (True, cs) else if c = CHR ''+'' then (False, cs) else (False, c # cs))"

text \<open>
  \<open>std::strtoul(s, &end, 10)\<close> on LP64: the value, the text that \<open>end\<close> points at, and whether
  \<open>errno\<close> was set to \<open>ERANGE\<close>.  Without a digit the value is 0 and \<open>end\<close> is \<open>s\<close>; too large a
  number gives \<open>ULONG_MAX\<close>; a minus sign negates the value in \<open>unsigned long\<close>.
\<close>

definition strtoul :: "char list \<Rightarrow> u64 \<times> string \<times> bool" where
  "strtoul s =
     (let (neg, u) = split_sign (dropWhile is_space (cstr s));
          ds = takeWhile is_digit u;
          rest = dropWhile is_digit u;
          n = number ds
      in if ds = [] then (0, cstr s, False)
         else if 2 ^ 64 \<le> n then (- 1, rest, True)
         else (if neg then - of_nat n else of_nat n, rest, False))"

definition UINT32_MAX :: u64 where "UINT32_MAX = 4294967295"

text \<open>The TTL argument of the bridge's \<open>put\<close>.\<close>

definition parse_ttl :: "char list \<Rightarrow> u32 option" where
  "parse_ttl s =
     (let (parsed, end_text, erange) = strtoul s
      in if end_text \<noteq> [] \<or> UINT32_MAX < parsed then None else Some (ucast parsed))"

text \<open>The counts of the benchmark's command line.\<close>

definition parse_positive :: "char list \<Rightarrow> u32 option" where
  "parse_positive s =
     (let (parsed, end_text, erange) = strtoul s
      in if erange \<or> end_text \<noteq> [] \<or> parsed = 0 \<or> UINT32_MAX < parsed then None
         else Some (ucast parsed))"

subsection \<open>Lemmas\<close>

lemma digit_not_space: "is_digit c \<Longrightarrow> \<not> is_space c"
  by (auto simp: is_digit_def is_space_def)

lemma sign_not_digit: "\<not> is_digit CHR ''-''" "\<not> is_digit CHR ''+''"
  by (simp_all add: is_digit_def)

lemma sign_not_space: "\<not> is_space CHR ''-''" "\<not> is_space CHR ''+''"
  by (simp_all add: is_space_def)

lemma split_sign_digits: "list_all is_digit ds \<Longrightarrow> split_sign ds = (False, ds)"
  by (cases ds) (auto simp: sign_not_digit)

lemma takeWhile_digits [simp]: "list_all is_digit ds \<Longrightarrow> takeWhile is_digit ds = ds"
  by (simp add: takeWhile_eq_all_conv list_all_iff)

lemma dropWhile_digits [simp]: "list_all is_digit ds \<Longrightarrow> dropWhile is_digit ds = []"
  by (simp add: list_all_iff)

lemma dropWhile_spaces:
  "list_all is_space ws \<Longrightarrow> (xs = [] \<or> \<not> is_space (hd xs)) \<Longrightarrow> dropWhile is_space (ws @ xs) = xs"
  by (induction ws) (cases xs; simp)+

text \<open>The numbers \<open>strtoul\<close> accepts to the end of the text.\<close>

definition signed_number :: "string \<Rightarrow> bool \<Rightarrow> nat \<Rightarrow> bool" where
  "signed_number t neg n \<longleftrightarrow>
     (\<exists>ws sg ds. t = ws @ sg @ ds \<and> list_all is_space ws \<and>
        (neg \<and> sg = ''-'' \<or> \<not> neg \<and> (sg = '''' \<or> sg = ''+'')) \<and>
        ds \<noteq> [] \<and> list_all is_digit ds \<and> n = number ds)"

lemma strtoul_signed_number:
  assumes "signed_number (cstr s) neg n"
  shows "strtoul s = (if 2 ^ 64 \<le> n then (- 1, [], True)
                      else (if neg then - of_nat n else of_nat n, [], False))"
proof -
  obtain ws sg ds where t: "cstr s = ws @ sg @ ds" "list_all is_space ws"
    and sg: "neg \<and> sg = ''-'' \<or> \<not> neg \<and> (sg = '''' \<or> sg = ''+'')"
    and ds: "ds \<noteq> []" "list_all is_digit ds" "n = number ds"
    using assms by (auto simp: signed_number_def)
  have "\<not> is_space (hd (sg @ ds))"
    using sg ds digit_not_space sign_not_space by (cases ds) auto
  then have "dropWhile is_space (cstr s) = sg @ ds"
    using t by (simp add: dropWhile_spaces)
  moreover have "split_sign (sg @ ds) = (neg, ds)"
    using sg ds(2) split_sign_digits by auto
  ultimately show ?thesis using ds by (simp add: strtoul_def)
qed

lemma strtoul_consumed:
  assumes "strtoul s = (v, [], er)"
  obtains (empty) "cstr s = []" "v = 0" "\<not> er"
  | (signed) neg n where "signed_number (cstr s) neg n"
proof (cases "split_sign (dropWhile is_space (cstr s))")
  case (Pair neg u)
  show ?thesis
  proof (cases "takeWhile is_digit u = []")
    case True
    with assms Pair show ?thesis by (intro empty) (auto simp: strtoul_def Let_def)
  next
    case False
    have "dropWhile is_digit u = []"
      using assms Pair False by (auto simp: strtoul_def Let_def split: if_splits)
    then have u: "list_all is_digit u" "u \<noteq> []" using False by (auto simp: list_all_iff)
    have t: "cstr s = takeWhile is_space (cstr s) @ dropWhile is_space (cstr s)" by simp
    have "\<exists>sg. dropWhile is_space (cstr s) = sg @ u \<and>
        (neg \<and> sg = ''-'' \<or> \<not> neg \<and> (sg = '''' \<or> sg = ''+''))"
      using Pair by (cases "dropWhile is_space (cstr s)") (auto split: if_splits)
    then obtain sg where "dropWhile is_space (cstr s) = sg @ u"
      "neg \<and> sg = ''-'' \<or> \<not> neg \<and> (sg = '''' \<or> sg = ''+'')" by blast
    moreover have "list_all is_space (takeWhile is_space (cstr s))"
      by (auto simp: list_all_iff dest: set_takeWhileD)
    ultimately have "signed_number (cstr s) neg (number u)"
      unfolding signed_number_def using t u by metis
    then show ?thesis by (rule signed)
  qed
qed

lemma signed_number_decimal: "signed_number (decimal n) False n"
  using decimal_digits[of n] unfolding signed_number_def
  by (intro exI[of _ "[]"] exI[of _ "decimal n"]) simp

lemma strtoul_decimal:
  "strtoul (decimal n) = (if 2 ^ 64 \<le> n then (- 1, [], True) else (of_nat n, [], False))"
  using strtoul_signed_number[of "decimal n" False n] signed_number_decimal[of n] by simp

lemma UINT32_MAX_less: "n < 18446744073709551616 \<Longrightarrow> UINT32_MAX < of_nat n \<longleftrightarrow> 4294967295 < n"
  by (simp add: UINT32_MAX_def word_less_nat_alt unsigned_of_nat take_bit_nat_eq_self)

lemma UINT32_MAX_top: "\<not> - 1 \<le> UINT32_MAX"
proof -
  have "UINT32_MAX < - 1" by (simp add: UINT32_MAX_def)
  then show ?thesis by (simp only: not_le)
qed

lemma ucast_of_nat_u32 [simp]: "(ucast (of_nat n :: u64) :: u32) = of_nat n"
  by (simp add: word_unat_eq_iff unsigned_ucast_eq unsigned_of_nat)

lemma parse_ttl_decimal:
  "parse_ttl (decimal n) = (if n \<le> 4294967295 then Some (of_nat n) else None)"
proof (cases "2 ^ 64 \<le> n")
  case True
  then show ?thesis by (simp add: parse_ttl_def strtoul_decimal UINT32_MAX_def)
next
  case False
  then show ?thesis
    by (auto simp: parse_ttl_def strtoul_decimal UINT32_MAX_less)
qed

definition signed_word :: "bool \<Rightarrow> nat \<Rightarrow> u64" where
  "signed_word neg n = (if neg then - of_nat n else of_nat n)"

text \<open>Exactly what the TTL argument accepts: the empty text, and signed numbers that fit.\<close>

lemma parse_ttl_iff:
  "parse_ttl s = Some t \<longleftrightarrow>
     cstr s = [] \<and> t = 0 \<or>
     (\<exists>neg n. signed_number (cstr s) neg n \<and> n < 2 ^ 64 \<and> signed_word neg n \<le> UINT32_MAX \<and>
        t = ucast (signed_word neg n))"
  (is "?l \<longleftrightarrow> ?e \<or> ?n")
proof
  assume l: ?l
  then obtain v er where s: "strtoul s = (v, [], er)" and v: "v \<le> UINT32_MAX" "t = ucast v"
    by (auto simp: parse_ttl_def not_less split: prod.splits if_splits)
  from s show "?e \<or> ?n"
  proof (cases rule: strtoul_consumed)
    case empty
    with v show ?thesis by simp
  next
    case (signed neg n)
    have "\<not> 2 ^ 64 \<le> n"
    proof
      assume "2 ^ 64 \<le> n"
      then have "v = - 1" using strtoul_signed_number[OF signed] s by simp
      with v UINT32_MAX_top show False by simp
    qed
    with strtoul_signed_number[OF signed] s have "v = signed_word neg n"
      by (simp add: signed_word_def)
    with signed v \<open>\<not> 2 ^ 64 \<le> n\<close> show ?thesis by (metis not_le)
  qed
next
  assume "?e \<or> ?n"
  then show ?l
  proof
    assume ?e
    then show ?l by (simp add: parse_ttl_def strtoul_def number_def)
  next
    assume ?n
    then obtain neg n where n: "signed_number (cstr s) neg n" "\<not> 2 ^ 64 \<le> n"
      "signed_word neg n \<le> UINT32_MAX" "t = ucast (signed_word neg n)" by (metis not_le)
    then show ?l
      using strtoul_signed_number[OF n(1)] by (simp add: parse_ttl_def signed_word_def not_less)
  qed
qed

lemma parse_positive_iff:
  "parse_positive s = Some t \<longleftrightarrow>
     (\<exists>neg n. signed_number (cstr s) neg n \<and> n < 2 ^ 64 \<and> signed_word neg n \<noteq> 0 \<and>
        signed_word neg n \<le> UINT32_MAX \<and> t = ucast (signed_word neg n))"
  (is "?l \<longleftrightarrow> ?n")
proof
  assume l: ?l
  then obtain v where s: "strtoul s = (v, [], False)"
    and v: "v \<le> UINT32_MAX" "v \<noteq> 0" "t = ucast v"
    by (auto simp: parse_positive_def not_less split: prod.splits if_splits)
  from s show ?n
  proof (cases rule: strtoul_consumed)
    case empty
    with v show ?thesis by simp
  next
    case (signed neg n)
    from strtoul_signed_number[OF signed] s have "\<not> 2 ^ 64 \<le> n" "v = signed_word neg n"
      by (auto simp: signed_word_def split: if_splits)
    with signed v show ?thesis by (metis not_le)
  qed
next
  assume ?n
  then obtain neg n where n: "signed_number (cstr s) neg n" "\<not> 2 ^ 64 \<le> n"
    "signed_word neg n \<noteq> 0" "signed_word neg n \<le> UINT32_MAX" "t = ucast (signed_word neg n)"
    by (metis not_le)
  then show ?l
    using strtoul_signed_number[OF n(1)] by (simp add: parse_positive_def signed_word_def not_less)
qed

section \<open>JSON strings\<close>

text \<open>
  What \<open>print_json_string\<close> writes for one byte, and for a string; the reader of JSON strings
  that the output is meant for takes the text after the opening quote and returns the string
  and the text after the closing one.
\<close>

definition hex_digit :: "nat \<Rightarrow> char" where
  "hex_digit n = ''0123456789abcdef'' ! n"

definition json_char :: "char \<Rightarrow> string" where
  "json_char c =
     (if c = CHR 0x22 then [CHR 0x5C, CHR 0x22]
      else if c = CHR 0x5C then [CHR 0x5C, CHR 0x5C]
      else if c = CHR 0x08 then [CHR 0x5C, CHR ''b'']
      else if c = CHR 0x0C then [CHR 0x5C, CHR ''f'']
      else if c = CHR 0x0A then [CHR 0x5C, CHR ''n'']
      else if c = CHR 0x0D then [CHR 0x5C, CHR ''r'']
      else if c = CHR 0x09 then [CHR 0x5C, CHR ''t'']
      else if code c < 32 then
        CHR 0x5C # ''u00'' @ [hex_digit (code c div 16), hex_digit (code c mod 16)]
      else [c])"

definition print_json_string :: "char list \<Rightarrow> string" where
  "print_json_string s = CHR 0x22 # concat (map json_char (cstr s)) @ [CHR 0x22]"

definition hex_value :: "char \<Rightarrow> nat option" where
  "hex_value c =
     (if is_digit c then Some (digit_value c)
      else if 97 \<le> code c \<and> code c \<le> 102 then Some (code c - 87)
      else if 65 \<le> code c \<and> code c \<le> 70 then Some (code c - 55) else None)"

fun hex_number :: "string \<Rightarrow> nat option" where
  "hex_number [] = Some 0"
| "hex_number (c # cs) =
     (case hex_value c of None \<Rightarrow> None
      | Some d \<Rightarrow> map_option (\<lambda>n. d * 16 ^ length cs + n) (hex_number cs))"

definition simple_escape :: "char \<Rightarrow> char option" where
  "simple_escape e =
     map_of [(CHR 0x22, CHR 0x22), (CHR 0x5C, CHR 0x5C), (CHR ''/'', CHR ''/''),
             (CHR ''b'', CHR 0x08), (CHR ''f'', CHR 0x0C), (CHR ''n'', CHR 0x0A),
             (CHR ''r'', CHR 0x0D), (CHR ''t'', CHR 0x09)] e"

definition json_cons :: "char \<Rightarrow> (string \<times> string) option \<Rightarrow> (string \<times> string) option" where
  "json_cons c res = map_option (\<lambda>(s, rest). (c # s, rest)) res"

function json_body :: "string \<Rightarrow> (string \<times> string) option" where
  "json_body t =
     (case t of [] \<Rightarrow> None
      | c # cs \<Rightarrow>
         if c = CHR 0x22 then Some ([], cs)
         else if code c < 32 then None
         else if c \<noteq> CHR 0x5C then json_cons c (json_body cs)
         else (case cs of [] \<Rightarrow> None
               | e # es \<Rightarrow>
                  if e = CHR ''u'' then
                    (if length es < 4 then None
                     else case hex_number (take 4 es) of None \<Rightarrow> None
                       | Some n \<Rightarrow> if n < 128 then json_cons (char_of n) (json_body (drop 4 es)) else None)
                  else (case simple_escape e of None \<Rightarrow> None
                        | Some ch \<Rightarrow> json_cons ch (json_body es))))"
  by pat_completeness auto
termination by (relation "measure length") auto

declare json_body.simps [simp del]

definition json_read :: "string \<Rightarrow> (string \<times> string) option" where
  "json_read t = (case t of [] \<Rightarrow> None | c # cs \<Rightarrow> if c = CHR 0x22 then json_body cs else None)"

lemma hex_value_digit [simp]: "d < 16 \<Longrightarrow> hex_value (hex_digit d) = Some d"
proof -
  have "\<forall>d \<in> set [0..<16]. hex_value (hex_digit d) = Some d" by code_simp
  then show "d < 16 \<Longrightarrow> ?thesis" by simp
qed

lemma hex_number_byte:
  assumes "d < 16" "e < 16"
  shows "hex_number [CHR ''0'', CHR ''0'', hex_digit d, hex_digit e] = Some (d * 16 + e)"
proof -
  have "hex_value CHR ''0'' = Some 0" by code_simp
  with assms show ?thesis by simp
qed

lemma json_body_u:
  "json_body (CHR 0x5C # CHR ''u'' # a # b # c # d # rest) =
     (case hex_number [a, b, c, d] of None \<Rightarrow> None
      | Some n \<Rightarrow> if n < 128 then json_cons (char_of n) (json_body rest) else None)"
proof -
  have 4: "drop 4 (a # b # c # d # rest) = rest" by (simp add: numeral_eq_Suc)
  show ?thesis by (subst json_body.simps) (simp add: 4 del: hex_number.simps split: option.split)
qed

lemma json_body_char: "json_body (json_char c @ rest) = json_cons c (json_body rest)"
proof (cases "c \<in> {CHR 0x22, CHR 0x5C, CHR 0x08, CHR 0x0C, CHR 0x0A, CHR 0x0D, CHR 0x09}")
  case True
  then show ?thesis
    by (subst json_body.simps) (auto simp: json_char_def simple_escape_def)
next
  case False
  show ?thesis
  proof (cases "code c < 32")
    case True
    then have d: "code c div 16 < 16" "code c mod 16 < 16" by simp_all
    from False True have "json_char c =
        [CHR 0x5C, CHR ''u'', CHR ''0'', CHR ''0'', hex_digit (code c div 16), hex_digit (code c mod 16)]"
      by (simp add: json_char_def)
    then have "json_body (json_char c @ rest)
        = (if code c < 128 then json_cons (char_of (code c)) (json_body rest) else None)"
      by (simp only: append.simps json_body_u hex_number_byte[OF d] option.case div_mult_mod_eq)
    with True show ?thesis by simp
  next
    case long: False
    with False show ?thesis by (subst json_body.simps) (simp add: json_char_def)
  qed
qed

lemma json_body_string:
  "json_body (concat (map json_char s) @ CHR 0x22 # rest) = Some (s, rest)"
proof (induction s)
  case Nil
  then show ?case by (subst json_body.simps) simp
next
  case (Cons c s)
  then show ?case by (simp add: json_body_char json_cons_def)
qed

lemma json_read_print: "json_read (print_json_string s @ rest) = Some (cstr s, rest)"
  by (simp add: json_read_def print_json_string_def json_body_string)

lemma json_char_printable: "ch \<in> set (json_char c) \<Longrightarrow> 32 \<le> code ch"
proof -
  have h: "\<forall>d \<in> set [0..<16]. 32 \<le> code (hex_digit d)" by code_simp
  assume ch: "ch \<in> set (json_char c)"
  show ?thesis
  proof (cases "code c < 32")
    case True
    then have "32 \<le> code (hex_digit (code c div 16))" "32 \<le> code (hex_digit (code c mod 16))"
      using h by auto
    with ch show ?thesis by (auto simp: json_char_def split: if_splits)
  next
    case False
    with ch show ?thesis by (auto simp: json_char_def split: if_splits)
  qed
qed

section \<open>CSV quoting\<close>

fun csv_escape :: "string \<Rightarrow> string" where
  "csv_escape [] = []"
| "csv_escape (c # cs) = (if c = CHR 0x22 then [CHR 0x22, c] else [c]) @ csv_escape cs"

definition csv_quote :: "string \<Rightarrow> string" where
  "csv_quote s = CHR 0x22 # csv_escape s @ [CHR 0x22]"

text \<open>The reader of a quoted field: a doubled quote is a quote, a single one ends the field.\<close>

fun csv_body :: "string \<Rightarrow> (string \<times> string) option" where
  "csv_body [] = None"
| "csv_body [c] = (if c = CHR 0x22 then Some ([], []) else None)"
| "csv_body (c # d # cs) =
     (if c \<noteq> CHR 0x22 then json_cons c (csv_body (d # cs))
      else if d = CHR 0x22 then json_cons c (csv_body cs)
      else Some ([], d # cs))"

definition csv_read :: "string \<Rightarrow> (string \<times> string) option" where
  "csv_read t = (case t of [] \<Rightarrow> None | c # cs \<Rightarrow> if c = CHR 0x22 then csv_body cs else None)"

lemma csv_body_escape:
  assumes "rest = [] \<or> hd rest \<noteq> CHR 0x22"
  shows "csv_body (csv_escape s @ CHR 0x22 # rest) = Some (s, rest)"
proof (induction s)
  case Nil
  with assms show ?case by (cases rest) auto
next
  case (Cons c s)
  obtain d ds where "csv_escape s @ CHR 0x22 # rest = d # ds"
    by (metis append_is_Nil_conv list.distinct(1) neq_Nil_conv)
  with Cons show ?case by (auto simp: json_cons_def)
qed

lemma csv_read_quote:
  "rest = [] \<or> hd rest \<noteq> CHR 0x22 \<Longrightarrow> csv_read (csv_quote s @ rest) = Some (s, rest)"
  by (simp add: csv_read_def csv_quote_def csv_body_escape)

end
