(* ===== verification/Output.thy ===== *)
theory Output
  imports Resources Text
begin

text \<open>
  What the programs write: \<open>std::cout\<close> and \<open>std::cerr\<close> as events of the history, and the text a
  process has written to its standard output.  Writing touches neither the region nor the lock
  nor a resource, and \<open>std::endl\<close> is a newline.
\<close>

definition cout :: "string \<Rightarrow> world \<Rightarrow> world" where
  "cout s w = emit (Cout s) w"

definition cerr :: "string \<Rightarrow> world \<Rightarrow> world" where
  "cerr s w = emit (Cerr s) w"

text \<open>Everything a process has written to its standard output.\<close>

fun stdout_of :: "history \<Rightarrow> string" where
  "stdout_of [] = []"
| "stdout_of (Cout s # h) = stdout_of h @ s"
| "stdout_of (_ # h) = stdout_of h"

lemma mem_cout [simp]: "mem (cout s w) = mem w" "mem (cerr s w) = mem w"
  by (simp_all add: cout_def cerr_def)

lemma resources_cout [simp]:
  "resources_of (hist (cout s w)) = resources_of (hist w)"
  "resources_of (hist (cerr s w)) = resources_of (hist w)"
  by (simp_all add: cout_def cerr_def)

lemma phase_cout [simp]:
  "phase (hist (cout s w)) = phase (hist w)" "phase (hist (cerr s w)) = phase (hist w)"
  by (simp_all add: cout_def cerr_def)

lemma stdout_cout [simp]:
  "stdout_of (hist (cout s w)) = stdout_of (hist w) @ s"
  "stdout_of (hist (cerr s w)) = stdout_of (hist w)"
  by (simp_all add: cout_def cerr_def)

text \<open>The engine writes nothing to the standard output.\<close>

lemma stdout_engine [simp]:
  "stdout_of (hist (snd (lock_for_read env w))) = stdout_of (hist w)"
  "stdout_of (hist (snd (lock_for_write env w))) = stdout_of (hist w)"
  "stdout_of (hist (unlock_cache env w)) = stdout_of (hist w)"
  "stdout_of (hist (snd (read_clock env w))) = stdout_of (hist w)"
  by (simp_all add: lock_for_read_def lock_for_write_def unlock_cache_def read_clock_eq Let_def)

lemma stdout_choose_slot [simp]:
  "stdout_of (hist (snd (choose_slot env key w))) = stdout_of (hist w)"
  by (simp add: choose_slot_def split_beta Let_def)

lemma stdout_metrics [simp]:
  "stdout_of (hist (snd (add_get_metrics env hit c w))) = stdout_of (hist w)"
  "stdout_of (hist (get_expired env key c w)) = stdout_of (hist w)"
  by (simp_all add: add_get_metrics_def get_expired_def split_beta Let_def)

lemma stdout_operations [simp]:
  "stdout_of (hist (snd (cache_put_ttl env base key val ttl w))) = stdout_of (hist w)"
  "stdout_of (hist (snd (snd (snd (cache_get env base key out ots w))))) = stdout_of (hist w)"
  "stdout_of (hist (snd (cache_update env base key val w))) = stdout_of (hist w)"
  "stdout_of (hist (snd (cache_delete env base key w))) = stdout_of (hist w)"
  by (simp_all add: cache_put_ttl_def cache_get_def cache_update_def cache_delete_def
      split_beta Let_def split: probe_exit.split)

lemma stdout_helpers [simp]:
  "stdout_of (hist (close_descriptor env fd w)) = stdout_of (hist w)"
  "stdout_of (hist (unmap_region env base w)) = stdout_of (hist w)"
  "stdout_of (hist (unlink_created_object env name w)) = stdout_of (hist w)"
  by (simp_all add: close_descriptor_def unmap_region_def unlink_created_object_def Let_def split_beta)

lemma stdout_close [simp]:
  "stdout_of (hist (snd (cache_close_shared env m w))) = stdout_of (hist w)"
  by (simp add: cache_close_shared_def Let_def split: option.split)

lemma stdout_open_stages [simp]:
  "stdout_of (hist (snd (snd (open_object env create name w)))) = stdout_of (hist w)"
  "stdout_of (hist (snd (size_object env created fd name w))) = stdout_of (hist w)"
  "stdout_of (hist (snd (adopt_region env created fd base name w))) = stdout_of (hist w)"
  by (simp_all add: open_object_def size_object_def adopt_region_def cache_initialize_region_def
      cache_init_lock_def validate_ready_header_def Let_def split_beta)

lemma stdout_open [simp]:
  "stdout_of (hist (snd (snd (cache_open_shared env m create nm w)))) = stdout_of (hist w)"
  by (simp add: cache_open_shared_def Let_def split_beta split: option.split)

end
