(* ===== verification/Telemetry.thy ===== *)
theory Telemetry
  imports Complex_Main "HOL-Library.Log_Nat" Output
begin

text \<open>
  \<open>cache_print_telemetry\<close> of \<open>src/cache_engine.cpp\<close>.  Its percentages are computed in IEEE
  double precision; a finite double is a rational number, and an operation rounds the exact
  result to 53 significant bits, ties to even.  The values that occur lie between two to the
  \<open>-64\<close> and two to the \<open>75\<close>, far from underflow and overflow.
\<close>

section \<open>Double precision\<close>

definition round_even :: "rat \<Rightarrow> int" where
  "round_even y =
     (let f = \<lfloor>y\<rfloor>; d = y - of_int f
      in if d < 1 / 2 then f else if d > 1 / 2 then f + 1 else if even f then f else f + 1)"

text \<open>The binary exponent of a positive number: two to the exponent is the greatest power below.\<close>

definition exponent :: "rat \<Rightarrow> int" where
  "exponent x =
     (let (n, d) = quotient_of x; k = bitlen n - bitlen d
      in if x < 2 powi k then k - 1 else k)"

definition round53 :: "rat \<Rightarrow> rat" where
  "round53 x =
     (if x \<le> 0 then 0
      else let u = 2 powi (exponent x - 52) in of_int (round_even (x / u)) * u)"

lemma round_even_bounds:
  "y - 1 / 2 \<le> of_int (round_even y)" "of_int (round_even y) \<le> y + 1 / 2"
proof -
  have "of_int \<lfloor>y\<rfloor> \<le> y" "y < of_int \<lfloor>y\<rfloor> + 1" by linarith+
  moreover have "round_even y = \<lfloor>y\<rfloor> \<and> y - of_int \<lfloor>y\<rfloor> \<le> 1 / 2 \<or>
      round_even y = \<lfloor>y\<rfloor> + 1 \<and> 1 / 2 \<le> y - of_int \<lfloor>y\<rfloor>"
    unfolding round_even_def Let_def by (simp add: not_less del: One_nat_def)
  ultimately show "y - 1 / 2 \<le> of_int (round_even y)" "of_int (round_even y) \<le> y + 1 / 2"
    by (elim disjE conjE; simp only: of_int_add of_int_1; linarith)+
qed

lemma bitlen_power:
  assumes "0 < (n :: int)"
  shows "2 powi (bitlen n - 1) \<le> (of_int n :: rat)" "(of_int n :: rat) < 2 powi bitlen n"
proof -
  have b: "2 ^ nat (bitlen n - 1) \<le> n" "n < 2 ^ nat (bitlen n)"
    using bitlen_bounds[of n] assms by auto
  have "0 < bitlen n" using b(2) assms by (cases "bitlen n \<le> 0") auto
  have "(2 :: rat) powi (bitlen n - 1) = of_int (2 ^ nat (bitlen n - 1))"
    "(2 :: rat) powi bitlen n = of_int (2 ^ nat (bitlen n))"
    using \<open>0 < bitlen n\<close> by (simp_all add: power_int_def)
  with b(1,2) show "2 powi (bitlen n - 1) \<le> (of_int n :: rat)" "(of_int n :: rat) < 2 powi bitlen n"
    by (simp_all only: of_int_le_iff of_int_less_iff)
qed

lemma exponent_bounds:
  assumes "0 < x"
  shows "2 powi exponent x \<le> x" "x < 2 powi (exponent x + 1)"
proof -
  obtain n d where q: "quotient_of x = (n, d)" by fastforce
  have d: "0 < d" using q by (rule quotient_of_denom_pos)
  have x: "x = of_int n / of_int d" using q by (rule quotient_of_div)
  have n: "0 < n" using assms d by (simp add: x zero_less_divide_iff)
  let ?k = "bitlen n - bitlen d"
  note bn = bitlen_power[OF n] and bd = bitlen_power[OF d]
  have "x < 2 powi bitlen n / 2 powi (bitlen d - 1)"
    unfolding x using bn(2) bd(1) d n by (intro frac_less) auto
  also have "\<dots> = 2 powi (?k + 1)" by (simp add: power_int_diff power_int_add)
  finally have hi: "x < 2 powi (?k + 1)" .
  have "2 powi (?k - 1) = (2 powi (bitlen n - 1) / 2 powi bitlen d :: rat)"
    by (simp add: power_int_diff)
  also have "\<dots> < x" unfolding x using bn(1) bd(2) d n by (intro frac_less2) auto
  finally have "2 powi (?k - 1) \<le> x" by simp
  with hi show "2 powi exponent x \<le> x" "x < 2 powi (exponent x + 1)"
    by (auto simp: exponent_def q Let_def)
qed

text \<open>The relative error of one operation, and its result on the two binades that matter.\<close>

lemma round53_error:
  assumes "0 < x"
  shows "\<bar>round53 x - x\<bar> \<le> x / 2 ^ 53"
proof -
  let ?u = "2 powi (exponent x - 52) :: rat"
  have u: "0 < ?u" by simp
  have "\<bar>of_int (round_even (x / ?u)) - x / ?u\<bar> \<le> 1 / 2"
    using round_even_bounds[of "x / ?u"] by linarith
  then have "\<bar>of_int (round_even (x / ?u)) - x / ?u\<bar> * ?u \<le> 1 / 2 * ?u"
    using u by (intro mult_right_mono) auto
  moreover have "round53 x - x = (of_int (round_even (x / ?u)) - x / ?u) * ?u"
    using assms by (simp add: round53_def Let_def left_diff_distrib)
  then have "\<bar>of_int (round_even (x / ?u)) - x / ?u\<bar> * ?u = \<bar>round53 x - x\<bar>"
    using u by (simp add: abs_mult)
  moreover have "?u = 2 powi exponent x / 2 ^ 52" by (simp add: power_int_diff)
  ultimately show ?thesis using exponent_bounds(1)[OF assms] by (simp add: field_simps)
qed

lemma round53_bounds:
  assumes "0 < x"
  shows "x - x / 2 ^ 53 \<le> round53 x" "round53 x \<le> x + x / 2 ^ 53"
  using round53_error[OF assms] by linarith+

lemma exponentI:
  assumes "0 < x" "2 powi e \<le> x" "x < 2 powi (e + 1)"
  shows "exponent x = e"
proof (rule antisym)
  show "exponent x \<le> e"
  proof (rule ccontr)
    assume "\<not> exponent x \<le> e"
    then have "(2 :: rat) powi (e + 1) \<le> 2 powi exponent x" by (intro power_int_increasing) auto
    with exponent_bounds(1)[OF assms(1)] assms(3) show False by simp
  qed
  show "e \<le> exponent x"
  proof (rule ccontr)
    assume "\<not> e \<le> exponent x"
    then have "(2 :: rat) powi (exponent x + 1) \<le> 2 powi e" by (intro power_int_increasing) auto
    with exponent_bounds(2)[OF assms(1)] assms(2) show False by simp
  qed
qed

section \<open>The report\<close>

definition load_factor :: "CacheHeader \<Rightarrow> rat" where
  "load_factor header =
     (if 0 < capacity header
      then round53 (round53 (of_nat (unat (entry_count header)) / of_nat (unat (capacity header))) * 100)
      else 0)"

text \<open>The number of queries wraps at 64 bits, and both numbers are rounded when they become doubles.\<close>

definition hit_ratio :: "CacheHeader \<Rightarrow> rat" where
  "hit_ratio header =
     (let total_queries = total_hits header + total_misses header
      in if 0 < total_queries
         then round53 (round53 (round53 (of_nat (unat (total_hits header)))
                / round53 (of_nat (unat total_queries))) * 100)
         else 0)"

text \<open>\<open>std::fixed << std::setprecision(2)\<close>: the exact value rounded to hundredths.\<close>

definition hundredths :: "rat \<Rightarrow> nat" where
  "hundredths x = nat (round_even (x * 100))"

definition fixed2 :: "rat \<Rightarrow> string" where
  "fixed2 x = decimal (hundredths x div 100) @ ''.'' @
     [digit_char (hundredths x div 10 mod 10), digit_char (hundredths x mod 10)]"

text \<open>The Greek letter alpha in UTF-8.\<close>

definition alpha :: string where
  "alpha = [CHR 0xCE, CHR 0xB1]"

definition warning_text :: string where
  "warning_text = ''[WARN] '' @ alpha @
     '' > 70%: Linear probing performance degradation threshold reached!'' @ NL"

definition telemetry_lines :: "CacheHeader \<Rightarrow> string list" where
  "telemetry_lines header =
     [NL @ ''=== MemSync DBMS Telemetry Report ==='' @ NL,
      ''Capacity          : '' @ decimal (unat (capacity header)) @ NL,
      ''Active Entries    : '' @ decimal (unat (entry_count header)) @ NL,
      ''Load Factor ('' @ alpha @ '')    : '' @ fixed2 (load_factor header) @ ''%'' @ NL] @
     (if load_factor header > 70 then [warning_text] else []) @
     [''Total Hits        : '' @ decimal (unat (total_hits header)) @ NL,
      ''Total Misses      : '' @ decimal (unat (total_misses header)) @ NL,
      ''Hit Ratio         : '' @ fixed2 (hit_ratio header) @ ''%'' @ NL,
      ''Total Collisions  : '' @ decimal (unat (total_collisions header)) @ NL,
      ''====================================='' @ NL @ NL]"

text \<open>The header is copied under the read lock and printed after it is released.\<close>

definition cache_print_telemetry :: "'a env_scheme \<Rightarrow> shm_ptr \<Rightarrow> world \<Rightarrow> world" where
  "cache_print_telemetry env shm_base w =
     (if shm_base = Null_base then w
      else let (ok, w) = lock_for_read env w
      in if \<not> ok then w
      else let header = hdr (mem w);
               w = unlock_cache env w
      in fold cout (telemetry_lines header) w)"

section \<open>The warning is exact\<close>

lemma round53_below_70:
  assumes "0 < x" "x \<le> 7 / 10"
  shows "round53 (round53 x * 100) \<le> 70"
proof -
  have q: "round53 x \<le> 6305039478318694 / 2 ^ 53"
  proof (cases "x < 1 / 2")
    case True
    with round53_bounds(2)[OF assms(1)] show ?thesis by simp
  next
    case False
    then have "exponent x = - 1" using assms by (intro exponentI) auto
    then have r: "round53 x = of_int (round_even (x * 2 ^ 53)) / 2 ^ 53"
      using assms(1) by (simp add: round53_def Let_def power_int_def field_simps)
    have "of_int (round_even (x * 2 ^ 53)) \<le> x * 2 ^ 53 + 1 / 2" by (rule round_even_bounds)
    also have "\<dots> < of_int 6305039478318695" using assms(2) by simp
    finally have "round_even (x * 2 ^ 53) \<le> 6305039478318694" by (simp only: of_int_less_iff)
    then have "of_int (round_even (x * 2 ^ 53)) \<le> (of_int 6305039478318694 :: rat)"
      by (simp only: of_int_le_iff)
    then show ?thesis unfolding r by simp
  qed
  let ?y = "round53 x * 100"
  show ?thesis
  proof (cases "?y \<le> 0")
    case True
    then show ?thesis by (simp add: round53_def)
  next
    case False
    then have y: "0 < ?y" by simp
    show ?thesis
    proof (cases "?y < 64")
      case True
      with round53_bounds(2)[OF y] show ?thesis by simp
    next
      case False
      then have "exponent ?y = 6" using q y by (intro exponentI) auto
      then have r: "round53 ?y = of_int (round_even (?y * 2 ^ 46)) / 2 ^ 46"
        using y by (simp add: round53_def Let_def power_int_def field_simps)
      have "of_int (round_even (?y * 2 ^ 46)) \<le> ?y * 2 ^ 46 + 1 / 2" by (rule round_even_bounds)
      also have "\<dots> < of_int (70 * 2 ^ 46 + 1)" using q by simp
      finally have "round_even (?y * 2 ^ 46) \<le> 70 * 2 ^ 46" by (simp only: of_int_less_iff)
      then have "of_int (round_even (?y * 2 ^ 46)) \<le> (of_int (70 * 2 ^ 46) :: rat)"
        by (simp only: of_int_le_iff)
      then show ?thesis unfolding r by simp
    qed
  qed
qed

lemma round53_above_70:
  assumes "7 / 10 + 1 / (10 * 2 ^ 32) \<le> x"
  shows "70 < round53 (round53 x * 100)"
proof -
  have x: "0 < x" using assms by simp
  have q: "7 / 10 + 1 / (10 * 2 ^ 33) \<le> round53 x" using round53_bounds(1)[OF x] assms by simp
  then have "0 < round53 x * 100" by simp
  from round53_bounds(1)[OF this] q show ?thesis by simp
qed

text \<open>Fractions of 32-bit numbers keep their distance from seven tenths.\<close>

lemma fraction_warns:
  assumes n: "0 < n" "n < 2 ^ 32"
  shows "70 < round53 (round53 (of_nat c / of_nat n) * 100) \<longleftrightarrow> 7 * n < 10 * c"
proof (cases "7 * n < 10 * c")
  case True
  then have "of_nat (7 * n + 1) \<le> (of_nat (10 * c) :: rat)" by (simp only: of_nat_le_iff)
  moreover have "(of_nat n :: rat) < of_nat (2 ^ 32)" using n(2) by (simp only: of_nat_less_iff)
  ultimately have "7 / 10 + 1 / (10 * 2 ^ 32) \<le> (of_nat c / of_nat n :: rat)"
    using n by (simp add: field_simps)
  from round53_above_70[OF this] True show ?thesis by simp
next
  case False
  show ?thesis
  proof (cases "c = 0")
    case True
    then show ?thesis by (simp add: round53_def)
  next
    case pos: False
    from False have "of_nat (10 * c) \<le> (of_nat (7 * n) :: rat)" by (simp only: of_nat_le_iff)
    then have "of_nat c / of_nat n \<le> (7 / 10 :: rat)" "0 < (of_nat c / of_nat n :: rat)"
      using n pos by (simp_all add: field_simps)
    from round53_below_70[OF this(2,1)] False show ?thesis by simp
  qed
qed

lemma load_factor_warns:
  "load_factor header > 70 \<longleftrightarrow>
     0 < capacity header \<and> 7 * unat (capacity header) < 10 * unat (entry_count header)"
proof (cases "0 < capacity header")
  case True
  then have "0 < unat (capacity header)" by (simp add: word_less_nat_alt)
  from fraction_warns[OF this, of "unat (entry_count header)"] u32_bound[of "capacity header"] True show ?thesis
    by (simp add: load_factor_def)
qed (simp add: load_factor_def)

lemma warning_line:
  "warning_text \<in> set (telemetry_lines header) \<longleftrightarrow> load_factor header > 70"
  by (simp add: telemetry_lines_def warning_text_def)

section \<open>The printed percentages\<close>

lemma round53_nonneg: "0 \<le> x \<Longrightarrow> 0 \<le> round53 x"
proof (cases "x = 0")
  case False
  moreover assume "0 \<le> x"
  ultimately have x: "0 < x" by simp
  have "x / 2 ^ 53 \<le> x" using x by simp
  with round53_bounds(1)[OF x] show ?thesis by linarith
qed (simp add: round53_def)

lemma round53_close: "0 \<le> x \<Longrightarrow> \<bar>round53 x - x\<bar> \<le> x / 2 ^ 53"
  using round53_error[of x] by (cases "x = 0") (simp_all add: round53_def)

lemma hundredths_close:
  assumes "0 \<le> p"
  shows "\<bar>of_nat (hundredths p) - p * 100\<bar> \<le> 1 / 2"
proof -
  note b = round_even_bounds[of "p * 100"]
  with assms have "- 1 < (of_int (round_even (p * 100)) :: rat)" by simp
  then have "0 \<le> round_even (p * 100)" by (simp add: int_one_le_iff_zero_less)
  then have "of_nat (hundredths p) = (of_int (round_even (p * 100)) :: rat)" by (simp add: hundredths_def)
  with b show ?thesis by linarith
qed

lemma percentage_printed:
  assumes q: "0 \<le> q" "\<bar>q - x\<bar> \<le> 1 / 2 ^ 50" and x: "x \<le> 1"
  shows "\<bar>of_nat (hundredths (round53 (q * 100))) - x * 10000\<bar> < 51 / 100"
proof -
  let ?p = "round53 (q * 100)"
  have p: "\<bar>?p - q * 100\<bar> \<le> q * 100 / 2 ^ 53" using q(1) by (intro round53_close) simp
  have "0 \<le> ?p" using q(1) by (intro round53_nonneg) simp
  note h = hundredths_close[OF this]
  have d: "\<bar>q - x\<bar> \<le> 1 / 10000000" using q(2) by (rule order_trans) simp
  with x have "q \<le> 2" by linarith
  then have "q * 100 / 2 ^ 53 \<le> 1 / 10000000" by simp
  with p have "\<bar>?p - q * 100\<bar> \<le> 1 / 10000000" by linarith
  with h d show ?thesis by linarith
qed

lemma load_factor_printed:
  assumes "0 < capacity header" "entry_count header \<le> capacity header"
  shows "\<bar>of_nat (hundredths (load_factor header))
     - of_nat (unat (entry_count header)) / of_nat (unat (capacity header)) * 10000\<bar> < (51 / 100 :: rat)"
proof -
  let ?c = "of_nat (unat (entry_count header)) :: rat" and ?n = "of_nat (unat (capacity header)) :: rat"
  have "?c \<le> ?n" using assms(2) by (simp only: of_nat_le_iff word_le_nat_alt)
  moreover have "0 < ?n" using assms(1) by (simp only: of_nat_0_less_iff word_less_nat_alt unat_0)
  moreover have "0 \<le> ?c" by (rule of_nat_0_le_iff)
  ultimately have x: "?c / ?n \<le> 1" "0 \<le> ?c / ?n" by (simp_all del: of_nat_unat)
  have "?c / ?n / 2 ^ 53 \<le> 1 / 2 ^ 50" using x(1) by simp
  with round53_close[OF x(2)] have "\<bar>round53 (?c / ?n) - ?c / ?n\<bar> \<le> 1 / 2 ^ 50" by linarith
  from percentage_printed[OF round53_nonneg[OF x(2)] this x(1)] assms(1) show ?thesis
    by (simp add: load_factor_def)
qed

lemma quotient_close:
  fixes h t H T :: rat
  assumes h: "0 \<le> h" "h \<le> t" "0 < t"
    and H: "\<bar>H - h\<bar> \<le> h / 2 ^ 53" and T: "\<bar>T - t\<bar> \<le> t / 2 ^ 53"
  shows "\<bar>H / T - h / t\<bar> \<le> 1 / 2 ^ 51"
proof -
  have "t / 2 ^ 53 \<le> t / 2" using h(3) by simp
  with T have half: "t / 2 \<le> T" by linarith
  with h(3) have T0: "0 < T" by linarith
  have "\<bar>H * t - h * T\<bar> = \<bar>(H - h) * t - h * (T - t)\<bar>" by (simp add: algebra_simps)
  also have "\<dots> \<le> \<bar>(H - h) * t\<bar> + \<bar>h * (T - t)\<bar>" by (rule abs_triangle_ineq4)
  also have "\<dots> \<le> h / 2 ^ 53 * t + h * (t / 2 ^ 53)"
    using h H T by (intro add_mono) (simp_all only: abs_mult abs_of_nonneg abs_of_pos mult_right_mono
      mult_left_mono less_imp_le)
  finally have "\<bar>H * t - h * T\<bar> \<le> h * t / 2 ^ 52" by simp
  also have "\<dots> \<le> T * t / 2 ^ 51"
  proof -
    have "h \<le> 2 * T" using h(2) half by linarith
    then have "h * t \<le> 2 * T * t" using h(3) by (intro mult_right_mono) auto
    then show ?thesis by simp
  qed
  finally have "\<bar>H * t - h * T\<bar> / (T * t) \<le> 1 / 2 ^ 51"
    using T0 h(3) by (simp add: divide_le_eq)
  moreover have "H / T - h / t = (H * t - h * T) / (T * t)" using T0 h(3) by (simp add: diff_frac_eq)
  ultimately show ?thesis using T0 h(3) by (simp add: abs_mult)
qed

lemma hit_ratio_printed:
  assumes "unat (total_hits header) + unat (total_misses header) < 2 ^ 64"
    "0 < unat (total_hits header) + unat (total_misses header)"
  shows "\<bar>of_nat (hundredths (hit_ratio header)) - of_nat (unat (total_hits header))
     / of_nat (unat (total_hits header) + unat (total_misses header)) * 10000\<bar> < (51 / 100 :: rat)"
proof -
  define m where "m = unat (total_hits header) + unat (total_misses header)"
  define h where "h = (of_nat (unat (total_hits header)) :: rat)"
  define t where "t = (of_nat m :: rat)"
  have sum: "unat (total_hits header + total_misses header) = m"
    using assms(1) by (simp add: m_def unat_word_ariths)
  with assms(2) have pos: "0 < total_hits header + total_misses header"
    by (simp add: word_less_nat_alt m_def)
  have h: "0 \<le> h" "h \<le> t" "0 < t"
    using assms(2) unfolding h_def t_def m_def by (simp_all only: of_nat_0_le_iff of_nat_le_iff
        of_nat_0_less_iff le_add1)
  let ?q = "round53 h / round53 t"
  have q: "\<bar>?q - h / t\<bar> \<le> 1 / 2 ^ 51"
    using h by (intro quotient_close round53_close) auto
  have q0: "0 \<le> ?q" using h round53_nonneg[of h] round53_nonneg[of t] by simp
  have x: "h / t \<le> 1" using h by simp
  have "\<bar>?q - h / t\<bar> \<le> 1" using q by (rule order_trans) simp
  with x have "?q \<le> 2" by linarith
  then have "?q / 2 ^ 53 \<le> 1 / 2 ^ 52" by simp
  moreover have "(1 / 2 ^ 52 + 1 / 2 ^ 51 :: rat) \<le> 1 / 2 ^ 50" by simp
  ultimately have "\<bar>round53 ?q - h / t\<bar> \<le> 1 / 2 ^ 50" using q round53_close[OF q0] by linarith
  from percentage_printed[OF round53_nonneg[OF q0] this x]
  have "\<bar>of_nat (hundredths (hit_ratio header)) - h / t * 10000\<bar> < 51 / 100"
    unfolding hit_ratio_def Let_def sum h_def t_def using pos by (simp only: if_True)
  then show ?thesis by (simp only: h_def t_def m_def)
qed

end
