(* ===== verification/Bridge.thy ===== *)
theory Bridge
  imports Output
begin

text \<open>
  The command-line bridge of \<open>src/ui_bridge.cpp\<close>: one command per process, on the shared cache,
  with JSON on the standard output.  Every command opens the cache, does its work and closes the
  cache again; the exit status is the result of \<open>bridge_main\<close>.
\<close>

section \<open>Output\<close>

definition stats_text :: "CacheHeader \<Rightarrow> string" where
  "stats_text header =
     ''{\"capacity\":'' @ decimal (unat (capacity header)) @
     '',\"entries\":'' @ decimal (unat (entry_count header)) @
     '',\"hits\":'' @ decimal (unat (total_hits header)) @
     '',\"misses\":'' @ decimal (unat (total_misses header)) @
     '',\"collisions\":'' @ decimal (unat (total_collisions header)) @ ''}''"

definition print_stats :: "CacheHeader \<Rightarrow> world \<Rightarrow> world" where
  "print_stats header w = cout (stats_text header) w"

definition listed_entry :: "CacheEntry \<Rightarrow> bool \<Rightarrow> string" where
  "listed_entry entry expired =
     ''{\"key\":'' @ print_json_string (slot_key entry) @
     '',\"value\":'' @ print_json_string (slot_value entry) @
     '',\"timestamp\":'' @ decimal (unat (timestamp entry)) @
     '',\"ttl_seconds\":'' @ decimal (unat (ttl_seconds entry)) @
     '',\"expired\":'' @ (if expired then ''true'' else ''false'') @ ''}''"

section \<open>Argument checks\<close>

definition valid_key :: "char list option \<Rightarrow> world \<Rightarrow> bool \<times> world" where
  "valid_key key w =
     (case key of None \<Rightarrow> (False, cerr (''Key must not be empty.'' @ NL) w)
      | Some k \<Rightarrow>
         if char_at k 0 = NUL then (False, cerr (''Key must not be empty.'' @ NL) w)
         else if MAX_KEY_LEN \<le> strlen k then
           (False, cerr (''Key exceeds the cache limit of '' @ decimal (MAX_KEY_LEN - 1) @ '' bytes.'' @ NL) w)
         else (True, w))"

definition valid_value :: "char list option \<Rightarrow> world \<Rightarrow> bool \<times> world" where
  "valid_value val w =
     (case val of None \<Rightarrow> (False, cerr (''Value is required.'' @ NL) w)
      | Some v \<Rightarrow>
         if MAX_VAL_LEN \<le> strlen v then
           (False, cerr (''Value exceeds the cache limit of '' @ decimal (MAX_VAL_LEN - 1) @ '' bytes.'' @ NL) w)
         else (True, w))"

definition valid_key_and_value ::
  "char list option \<Rightarrow> char list option \<Rightarrow> world \<Rightarrow> bool \<times> world" where
  "valid_key_and_value key val w =
     (let (ok, w) = valid_key key w in if ok then valid_value val w else (False, w))"

section \<open>Commands\<close>

definition initialize_cache :: "'a os_env_scheme \<Rightarrow> world \<Rightarrow> bool \<times> world" where
  "initialize_cache env w =
     (let (ok, mapping, w) = cache_open_shared env (Some empty_mapping) True None w
      in if \<not> ok then (False, w)
      else let created = map_created (the mapping);
               (mapping, w) = cache_close_shared env mapping w;
               w = cout (''{\"ok\":true,\"message\":\"'' @
                      (if created then ''Cache initialized.'' else ''Existing cache is ready.'') @
                      ''\"}'' @ NL) w
      in (True, w))"

definition open_cache :: "'a os_env_scheme \<Rightarrow> world \<Rightarrow> bool \<times> CacheMapping option \<times> world" where
  "open_cache env w = cache_open_shared env (Some empty_mapping) False None w"

text \<open>The bridge locks by itself for \<open>stats\<close> and \<open>list\<close>, with its own error handling.\<close>

definition bridge_rdlock :: "'a env_scheme \<Rightarrow> world \<Rightarrow> bool \<times> world" where
  "bridge_rdlock env w =
     (let rc = rdlock_rc env (hist w);
          w = emit (Read_lock rc) w
      in if rc \<noteq> 0 then (False, w) else (True, set_mem (others env (hist w) (mem w)) w))"

definition bridge_unlock :: "'a env_scheme \<Rightarrow> world \<Rightarrow> world" where
  "bridge_unlock env w = emit (Unlock (unlock_rc env (hist w))) w"

definition stats_command :: "'a env_scheme \<Rightarrow> world \<Rightarrow> int \<times> world" where
  "stats_command env w =
     (let (ok, w) = bridge_rdlock env w
      in if \<not> ok then (1, cerr (''Could not acquire cache read lock for stats.'' @ NL) w)
      else let w = print_stats (hdr (mem w)) w;
               w = bridge_unlock env w
      in (0, cout NL w))"

text \<open>The body of the listing loop: the clock is read for every occupied slot.\<close>

definition list_entry :: "'a env_scheme \<Rightarrow> u32 \<Rightarrow> bool \<Rightarrow> world \<Rightarrow> bool \<times> world" where
  "list_entry env i first w =
     (let entry = entry_at (mem w) i
      in if slot_state entry \<noteq> OCCUPIED then (first, w)
      else let (now, w) = read_clock env w;
               expired = cache_entry_expired entry now;
               w = (if \<not> first then cout '','' w else w)
      in (False, cout (listed_entry entry expired) w))"

lemma mem_list_entry [simp]: "mem (snd (list_entry env i first w)) = mem w"
  by (simp add: list_entry_def Let_def read_clock_eq)

lemma list_entry_mem: "(f, w') = list_entry env i first w \<Longrightarrow> mem w' = mem w"
  using mem_list_entry[of env i first w] by (metis snd_conv)

function list_loop :: "'a env_scheme \<Rightarrow> u32 \<Rightarrow> bool \<Rightarrow> world \<Rightarrow> world" where
  "list_loop env i first w =
     (if i < capacity (hdr (mem w)) then
        let (first, w) = list_entry env i first w in list_loop env (i + 1) first w
      else w)"
  by pat_completeness auto
termination
  by (relation "measure (\<lambda>(env, i, first, w). cap (mem w) - unat i)")
    (auto simp: unat_succ_less word_less_nat_alt split_beta dest: list_entry_mem)

declare list_loop.simps [simp del]

definition list_command :: "'a env_scheme \<Rightarrow> world \<Rightarrow> int \<times> world" where
  "list_command env w =
     (let (ok, w) = bridge_rdlock env w
      in if \<not> ok then (1, cerr (''Could not acquire cache read lock for listing.'' @ NL) w)
      else let w = cout ''{\"items\":['' w;
               w = list_loop env 0 True w;
               w = cout ''],\"stats\":'' w;
               w = print_stats (hdr (mem w)) w;
               w = cout (''}'' @ NL) w
      in (0, bridge_unlock env w))"

definition get_command :: "'a env_scheme \<Rightarrow> char list \<Rightarrow> world \<Rightarrow> int \<times> world" where
  "get_command env key w =
     (let (found, val, stamp, w) =
            cache_get env Mapped_base (Some key) (Some (replicate MAX_VAL_LEN NUL)) (Some 0) w
      in if found then
           (0, cout (''{\"found\":true,\"value\":'' @ print_json_string (the val) @
                     '',\"timestamp\":'' @ decimal (unat (the stamp)) @ ''}'' @ NL) w)
         else (0, cout (''{\"found\":false}'' @ NL) w))"

definition put_command ::
  "'a env_scheme \<Rightarrow> char list \<Rightarrow> char list \<Rightarrow> char list option \<Rightarrow> world \<Rightarrow> int \<times> world" where
  "put_command env key val ttl_text w =
     (case (case ttl_text of None \<Rightarrow> Some 0 | Some t \<Rightarrow> parse_ttl t) of
        None \<Rightarrow> (1, cerr (''TTL must be an integer from 0 to '' @ decimal (unat UINT32_MAX) @ ''.'' @ NL) w)
      | Some ttl \<Rightarrow>
         let (ok, w) = cache_put_ttl env Mapped_base (Some key) (Some val) ttl w
         in if ok then (0, cout (''{\"ok\":true}'' @ NL) w)
            else (1, cerr (''Cache could not store the key.'' @ NL) w))"

definition update_command :: "'a env_scheme \<Rightarrow> char list \<Rightarrow> char list \<Rightarrow> world \<Rightarrow> int \<times> world" where
  "update_command env key val w =
     (let (ok, w) = cache_update env Mapped_base (Some key) (Some val) w
      in if ok then (0, cout (''{\"ok\":true}'' @ NL) w)
         else (1, cerr (''Key not found or expired; update did not change the cache.'' @ NL) w))"

definition delete_command :: "'a env_scheme \<Rightarrow> char list \<Rightarrow> world \<Rightarrow> int \<times> world" where
  "delete_command env key w =
     (let (ok, w) = cache_delete env Mapped_base (Some key) w
      in if ok then (0, cout (''{\"ok\":true}'' @ NL) w)
         else (1, cerr (''Key not found; nothing was deleted.'' @ NL) w))"

text \<open>
  The chain of conditions of \<open>run_command\<close>: a condition with an argument check may write an
  error message before the next one is tried.
\<close>

definition check_if :: "bool \<Rightarrow> (world \<Rightarrow> bool \<times> world) \<Rightarrow> world \<Rightarrow> bool \<times> world" where
  "check_if b check w = (if b then check w else (False, w))"

definition dispatch :: "'a env_scheme \<Rightarrow> char list list \<Rightarrow> world \<Rightarrow> int \<times> world" where
  "dispatch env argv w =
     (let argc = length argv; command = cstr (argv ! 1)
      in if command = ''stats'' \<and> argc = 2 then stats_command env w
      else if command = ''list'' \<and> argc = 2 then list_command env w
      else let (c, w) = check_if (command = ''get'' \<and> argc = 3) (valid_key (Some (argv ! 2))) w
      in if c then get_command env (argv ! 2) w
      else let (c, w) = check_if (command = ''put'' \<and> (argc = 4 \<or> argc = 5))
                          (valid_key_and_value (Some (argv ! 2)) (Some (argv ! 3))) w
      in if c then put_command env (argv ! 2) (argv ! 3) (if argc = 5 then Some (argv ! 4) else None) w
      else let (c, w) = check_if (command = ''update'' \<and> argc = 4)
                          (valid_key_and_value (Some (argv ! 2)) (Some (argv ! 3))) w
      in if c then update_command env (argv ! 2) (argv ! 3) w
      else let (c, w) = check_if (command = ''delete'' \<and> argc = 3) (valid_key (Some (argv ! 2))) w
      in if c then delete_command env (argv ! 2) w
      else (2, cerr (''Invalid command or arguments.'' @ NL) w))"

definition run_command :: "'a os_env_scheme \<Rightarrow> char list list \<Rightarrow> world \<Rightarrow> int \<times> world" where
  "run_command env argv w =
     (if cstr (argv ! 1) = ''init''
      then let (ok, w) = initialize_cache env w in (if ok then 0 else 1, w)
      else let (ok, mapping, w) = open_cache env w
      in if \<not> ok then (1, w)
      else let (result, w) = dispatch env argv w;
               (mapping, w) = cache_close_shared env mapping w
      in (result, w))"

definition bridge_main :: "'a os_env_scheme \<Rightarrow> char list list \<Rightarrow> world \<Rightarrow> int \<times> world" where
  "bridge_main env argv w =
     (if length argv < 2
      then (2, cerr (''Usage: memsync_ui_bridge init|stats|list|get|put|update|delete [arguments]'' @ NL) w)
      else run_command env argv w)"

section \<open>Resources, the lock and the output\<close>

lemma valid_key_frame [simp]:
  "resources_of (hist (snd (valid_key key w))) = resources_of (hist w)"
  "phase (hist (snd (valid_key key w))) = phase (hist w)"
  "stdout_of (hist (snd (valid_key key w))) = stdout_of (hist w)"
  "mem (snd (valid_key key w)) = mem w"
  by (simp_all add: valid_key_def split: option.split)

lemma valid_value_frame [simp]:
  "resources_of (hist (snd (valid_value val w))) = resources_of (hist w)"
  "phase (hist (snd (valid_value val w))) = phase (hist w)"
  "stdout_of (hist (snd (valid_value val w))) = stdout_of (hist w)"
  "mem (snd (valid_value val w)) = mem w"
  by (simp_all add: valid_value_def split: option.split)

lemma valid_key_and_value_frame [simp]:
  "resources_of (hist (snd (valid_key_and_value key val w))) = resources_of (hist w)"
  "phase (hist (snd (valid_key_and_value key val w))) = phase (hist w)"
  "stdout_of (hist (snd (valid_key_and_value key val w))) = stdout_of (hist w)"
  "mem (snd (valid_key_and_value key val w)) = mem w"
  by (simp_all add: valid_key_and_value_def split_beta Let_def)

lemma check_if_frame [simp]:
  assumes "\<And>w. resources_of (hist (snd (check w))) = resources_of (hist w)"
    and "\<And>w. phase (hist (snd (check w))) = phase (hist w)"
  shows "resources_of (hist (snd (check_if b check w))) = resources_of (hist w)"
    and "phase (hist (snd (check_if b check w))) = phase (hist w)"
  using assms by (simp_all add: check_if_def)

lemma list_entry_frame [simp]:
  "resources_of (hist (snd (list_entry env i first w))) = resources_of (hist w)"
  "phase (hist (snd (list_entry env i first w))) = phase (hist w)"
  by (simp_all add: list_entry_def Let_def read_clock_eq)

lemma list_loop_frame [simp]:
  "mem (list_loop env i first w) = mem w"
  "resources_of (hist (list_loop env i first w)) = resources_of (hist w)"
  "phase (hist (list_loop env i first w)) = phase (hist w)"
proof (induction env i first w rule: list_loop.induct)
  case (1 env i first w)
  {
    case 1
    then show ?case using "1.IH"(1) by (subst list_loop.simps) (simp add: split_beta)
  next
    case 2
    then show ?case using "1.IH"(2) by (subst list_loop.simps) (simp add: split_beta)
  next
    case 3
    then show ?case using "1.IH"(3) by (subst list_loop.simps) (simp add: split_beta)
  }
qed

lemma bridge_lock_frame [simp]:
  "resources_of (hist (snd (bridge_rdlock env w))) = resources_of (hist w)"
  "resources_of (hist (bridge_unlock env w)) = resources_of (hist w)"
  "mem (bridge_unlock env w) = mem w" "stdout_of (hist (bridge_unlock env w)) = stdout_of (hist w)"
  "stdout_of (hist (snd (bridge_rdlock env w))) = stdout_of (hist w)"
  by (simp_all add: bridge_rdlock_def bridge_unlock_def Let_def)

lemma phase_bridge_lock:
  "phase (hist w) = Idle \<Longrightarrow> phase (hist (snd (bridge_rdlock env w)))
     = (if fst (bridge_rdlock env w) then Reading else Idle)"
  "unlock_ok env \<Longrightarrow> phase (hist w) = Reading \<Longrightarrow> phase (hist (bridge_unlock env w)) = Idle"
  by (simp_all add: bridge_rdlock_def bridge_unlock_def unlock_ok_def Let_def)

lemma resources_commands:
  "resources_of (hist (snd (stats_command env w))) = resources_of (hist w)"
  "resources_of (hist (snd (list_command env w))) = resources_of (hist w)"
  "resources_of (hist (snd (get_command env key w))) = resources_of (hist w)"
  "resources_of (hist (snd (put_command env key val ttl w))) = resources_of (hist w)"
  "resources_of (hist (snd (update_command env key val w))) = resources_of (hist w)"
  "resources_of (hist (snd (delete_command env key w))) = resources_of (hist w)"
  by (simp_all add: stats_command_def list_command_def get_command_def put_command_def
      update_command_def delete_command_def print_stats_def split_beta Let_def split: option.split)

lemma phase_commands:
  assumes "unlock_ok env" "phase (hist w) = Idle"
  shows "phase (hist (snd (stats_command env w))) = Idle"
    "phase (hist (snd (list_command env w))) = Idle"
    "phase (hist (snd (get_command env key w))) = Idle"
    "phase (hist (snd (put_command env key val ttl w))) = Idle"
    "phase (hist (snd (update_command env key val w))) = Idle"
    "phase (hist (snd (delete_command env key w))) = Idle"
  using assms
  by (simp_all add: stats_command_def list_command_def get_command_def put_command_def
      update_command_def delete_command_def print_stats_def split_beta Let_def phase_bridge_lock
      phase_cache_get phase_cache_put_ttl phase_cache_update phase_cache_delete split: option.split)

lemma resources_dispatch: "resources_of (hist (snd (dispatch env argv w))) = resources_of (hist w)"
  by (simp add: dispatch_def Let_def split_beta resources_commands)

lemma phase_dispatch:
  "unlock_ok env \<Longrightarrow> phase (hist w) = Idle \<Longrightarrow> phase (hist (snd (dispatch env argv w))) = Idle"
  by (simp add: dispatch_def Let_def split_beta phase_commands)

section \<open>Whole runs\<close>

lemma open_cache_not_created:
  assumes "open_cache env w = (True, m', w1)"
  shows "\<exists>m. m' = Some m \<and> \<not> map_created m \<and> map_fd m \<noteq> - 1"
  using assms unfolding open_cache_def
  by (cases rule: cache_open_shared_mapping) auto

lemma stdout_open_cache:
  "open_cache env w = (ok, m, w1) \<Longrightarrow> stdout_of (hist w1) = stdout_of (hist w)"
  by (metis open_cache_def snd_conv stdout_open)

text \<open>Closing gives back what the run of a command other than \<open>init\<close> has opened.\<close>

lemma run_resources:
  assumes o: "open_cache env w = (True, Some m, w1)"
    and r: "resources_of (hist w2) = resources_of (hist w1)"
  shows "resources_of (hist (snd (cache_close_shared env (Some m) w2))) = resources_of (hist w)"
proof -
  from open_cache_not_created[OF o] have m: "\<not> map_created m" "map_fd m \<noteq> - 1" by auto
  have "resources_of (hist w1) = adds_mapping m SHM_NAME (resources_of (hist w))"
    using cache_open_shared_resources[OF o[unfolded open_cache_def]] by simp
  with r have "resources_of (hist w2) = adds_mapping m SHM_NAME (resources_of (hist w))" by simp
  from cache_close_shared_resources[OF this m(2), of env] m(1) show ?thesis by simp
qed

lemma initialize_cache_resources:
  "resources_of (hist (snd (initialize_cache env w))) =
     (resources_of (hist w))\<lparr>created_names :=
        created_names (resources_of (hist (snd (initialize_cache env w))))\<rparr>"
proof -
  obtain ok m' w1 where o: "cache_open_shared env (Some empty_mapping) True None w = (ok, m', w1)"
    by (metis prod_cases3)
  note r = cache_open_shared_resources[OF o]
  show ?thesis
  proof (cases ok)
    case False
    with o r show ?thesis by (simp add: initialize_cache_def)
  next
    case True
    with o have o': "cache_open_shared env (Some empty_mapping) True None w = (True, m', w1)" by simp
    from cache_open_shared_mapping[OF o'] obtain m where m: "m' = Some m" "map_fd m \<noteq> - 1"
      by (metis CacheMapping.select_convs(1))
    from r True m have "resources_of (hist w1) = adds_mapping m SHM_NAME (resources_of (hist w))"
      by simp
    from cache_close_shared_resources[OF this m(2), of env] show ?thesis
      using o True m by (simp add: initialize_cache_def Let_def split_beta)
  qed
qed

lemma run_command_resources:
  assumes "cstr (argv ! 1) \<noteq> ''init''"
  shows "resources_of (hist (snd (run_command env argv w))) = resources_of (hist w)"
proof -
  obtain ok m' w1 where o: "open_cache env w = (ok, m', w1)" by (metis prod_cases3)
  show ?thesis
  proof (cases ok)
    case False
    with assms o cache_open_shared_resources[OF o[unfolded open_cache_def]] show ?thesis
      by (simp add: run_command_def)
  next
    case True
    with o have o': "open_cache env w = (True, m', w1)" by simp
    then obtain m where m: "m' = Some m" using open_cache_not_created by blast
    show ?thesis
      using run_resources[OF o'[unfolded m], of "snd (dispatch env argv w1)"] assms o True m
      by (simp add: run_command_def split_beta Let_def resources_dispatch)
  qed
qed

lemma phase_run_command:
  assumes u: "unlock_ok env" and i: "phase (hist w) = Idle"
  shows "phase (hist (snd (run_command env argv w))) = Idle"
  using phase_cache_open_shared[OF u i] phase_dispatch[OF u]
  by (simp add: run_command_def initialize_cache_def open_cache_def split_beta Let_def)

text \<open>A run whose cache opens is the command between the opening and the closing.\<close>

lemma run_command_opened:
  assumes "open_cache env w = (True, m, w1)" "cstr (argv ! 1) \<noteq> ''init''"
    and "dispatch env argv w1 = (result, w2)" "2 \<le> length argv"
  shows "fst (bridge_main env argv w) = result"
    and "stdout_of (hist (snd (bridge_main env argv w))) = stdout_of (hist w2)"
    and "mem (snd (bridge_main env argv w)) = mem w2"
  using assms
  by (simp_all add: bridge_main_def run_command_def cache_close_shared_def close_descriptor_def
      unmap_region_def Let_def split_beta split: option.split)

section \<open>Exit statuses\<close>

text \<open>The command lines \<open>run_command\<close> understands; the time to live is checked later.\<close>

definition understood :: "char list list \<Rightarrow> bool" where
  "understood argv \<longleftrightarrow>
     (let argc = length argv; command = cstr (argv ! 1)
      in 2 \<le> argc \<and>
         (command = ''init'' \<or>
          command \<in> {''stats'', ''list''} \<and> argc = 2 \<or>
          command \<in> {''get'', ''delete''} \<and> argc = 3 \<and> key_fits (argv ! 2) \<or>
          command = ''put'' \<and> argc \<in> {4, 5} \<and> key_fits (argv ! 2) \<and> value_fits (argv ! 3) \<or>
          command = ''update'' \<and> argc = 4 \<and> key_fits (argv ! 2) \<and> value_fits (argv ! 3)))"

lemma valid_key_fits_iff: "fst (valid_key (Some k) w) \<longleftrightarrow> key_fits k"
  by (auto simp: valid_key_def key_fits_def cstr_empty_iff)

lemma valid_value_fits_iff: "fst (valid_value (Some v) w) \<longleftrightarrow> value_fits v"
  by (simp add: valid_value_def value_fits_def)

lemma valid_key_and_value_iff:
  "fst (valid_key_and_value (Some k) (Some v) w) \<longleftrightarrow> key_fits k \<and> value_fits v"
  using valid_key_fits_iff[of k w] valid_value_fits_iff[of v "snd (valid_key (Some k) w)"]
  by (simp add: valid_key_and_value_def split_beta)

lemma command_statuses:
  "fst (stats_command env w) \<in> {0, 1}" "fst (list_command env w) \<in> {0, 1}"
  "fst (get_command env key w) = 0" "fst (put_command env key val ttl w) \<in> {0, 1}"
  "fst (update_command env key val w) \<in> {0, 1}" "fst (delete_command env key w) \<in> {0, 1}"
  by (simp_all add: stats_command_def list_command_def get_command_def put_command_def
      update_command_def delete_command_def split_beta Let_def split: option.split)

lemma check_if_iff: "fst (check_if b check w) \<longleftrightarrow> b \<and> fst (check w)"
  by (simp add: check_if_def)

lemma dispatch_status:
  assumes "2 \<le> length argv" "cstr (argv ! 1) \<noteq> ''init''"
  shows "fst (dispatch env argv w) \<in> {0, 1, 2} \<and> (fst (dispatch env argv w) = 2 \<longleftrightarrow> \<not> understood argv)"
proof -
  have two: "fst (stats_command env w) \<noteq> 2" "fst (list_command env w) \<noteq> 2"
    "fst (put_command env key val ttl w) \<noteq> 2" "fst (update_command env key val w) \<noteq> 2"
    "fst (delete_command env key w) \<noteq> 2" for w key val ttl
    using command_statuses(1,2)[of env w] command_statuses(4)[of env key val ttl w]
      command_statuses(5)[of env key val w] command_statuses(6)[of env key w] by auto
  have three: "fst (stats_command env w) \<in> {0, 1, 2}" "fst (list_command env w) \<in> {0, 1, 2}"
    "fst (put_command env key val ttl w) \<in> {0, 1, 2}" "fst (update_command env key val w) \<in> {0, 1, 2}"
    "fst (delete_command env key w) \<in> {0, 1, 2}" for w key val ttl
    using command_statuses(1,2)[of env w] command_statuses(4)[of env key val ttl w]
      command_statuses(5)[of env key val w] command_statuses(6)[of env key w] by auto
  show ?thesis
    using assms two three
    by (auto simp: dispatch_def understood_def Let_def split_beta check_if_iff valid_key_fits_iff
        valid_key_and_value_iff command_statuses(3))
qed

lemma bridge_status: "fst (bridge_main env argv w) \<in> {0, 1, 2}"
proof (cases "2 \<le> length argv \<and> cstr (argv ! 1) \<noteq> ''init''")
  case True
  then have "fst (dispatch env argv v) \<in> {0, 1, 2}" for v
    using dispatch_status[of argv env v] by blast
  with True show ?thesis by (auto simp: bridge_main_def run_command_def split_beta Let_def)
qed (auto simp: bridge_main_def run_command_def split_beta Let_def)

section \<open>The commands on a well-formed cache\<close>

lemma get_command_spec:
  assumes wf: "table_wf (acquired_read env w)" and k: "key_fits key"
    and lock: "rdlock_rc env (hist w) = 0"
  shows "fst (get_command env key w) = 0 \<and>
     stdout_of (hist (snd (get_command env key w))) = stdout_of (hist w) @
       (case abs_map (acquired_read env w) (cstr key) of
          Some it \<Rightarrow>
            if item_expired it (get_time env w) then ''{\"found\":false}'' @ NL
            else ''{\"found\":true,\"value\":'' @ print_json_string (item_value it) @
                 '',\"timestamp\":'' @ decimal (unat (item_time it)) @ ''}'' @ NL
        | None \<Rightarrow> ''{\"found\":false}'' @ NL)"
proof -
  let ?buf = "replicate MAX_VAL_LEN NUL"
  let ?res = "cache_get env Mapped_base (Some key) (Some ?buf) (Some 0) w"
  have quiet: "stdout_of (hist (snd (snd (snd ?res)))) = stdout_of (hist w)" by simp
  show ?thesis
  proof (cases "abs_map (acquired_read env w) (cstr key)")
    case None
    show ?thesis
    proof (rule cache_get_absent[OF wf k lock None, of ?buf "Some 0"])
      fix u
      assume u: "?res = (False, Some ?buf, Some 0,
        snd (add_get_metrics env False (extra (acquired_read env w) (cstr key)) u))"
      show ?thesis using quiet unfolding u by (simp add: get_command_def u None)
    qed
  next
    case (Some it)
    show ?thesis
    proof (cases "item_expired it (get_time env w)")
      case True
      show ?thesis
      proof (rule cache_get_expired[OF wf k lock Some True, of ?buf "Some 0"])
        fix u
        assume u: "?res = (False, Some ?buf, Some 0,
          get_expired env key (extra (acquired_read env w) (cstr key)) u)"
        show ?thesis using quiet unfolding u by (simp add: get_command_def u Some True)
      qed
    next
      case False
      show ?thesis
      proof (rule cache_get_hit[OF wf k lock Some False, of ?buf "Some 0"])
        fix out' u
        assume u: "?res = (True, Some out', map_option (\<lambda>_. item_time it) (Some 0),
            snd (add_get_metrics env True (extra (acquired_read env w) (cstr key)) u))"
          and out: "MAX_VAL_LEN \<le> length ?buf \<Longrightarrow> copied_out ?buf (item_value it) out'"
        have "cstr out' = item_value it" using out by (simp add: copied_out_def)
        then have "print_json_string out' = print_json_string (item_value it)"
          by (metis cstr_idem print_json_string_def)
        then show ?thesis using quiet unfolding u by (simp add: get_command_def u Some False)
      qed
    qed
  qed
qed

text \<open>The listing: the occupied slots in slot order, separated by commas.\<close>

fun join_items :: "bool \<Rightarrow> string list \<Rightarrow> string" where
  "join_items first [] = []"
| "join_items first (x # xs) = (if first then [] else '','') @ x @ join_items False xs"

lemma list_loop_output:
  assumes "layout_ok (mem w)" "time_now env = (\<lambda>h. t)" "unat i \<le> cap (mem w)"
  shows "stdout_of (hist (list_loop env i first w)) = stdout_of (hist w) @
     join_items first (map (\<lambda>e. listed_entry e (cache_entry_expired e t))
       (filter occupied (drop (unat i) (table (mem w)))))"
  using assms
proof (induction env i first w rule: list_loop.induct[case_names step])
  case (step env i first w)
  show ?case
  proof (cases "i < capacity (hdr (mem w))")
    case False
    then have "cap (mem w) \<le> unat i" by (simp add: word_less_nat_alt)
    with False step.prems show ?thesis by (subst list_loop.simps) simp
  next
    case True
    then have lt: "unat i < cap (mem w)" by (simp add: word_less_nat_alt)
    obtain f w' where e: "list_entry env i first w = (f, w')" by fastforce
    have m: "mem w' = mem w" using list_entry_mem[OF e[symmetric]] .
    have u: "unat (i + 1) = Suc (unat i)" by (rule unat_succ_less[OF True])
    have d: "drop (unat i) (table (mem w))
        = slots (mem w) ! unat i # drop (Suc (unat i)) (table (mem w))"
      using lt step.prems(1) by (simp add: Cons_nth_drop_Suc[symmetric])
    have ih: "stdout_of (hist (list_loop env (i + 1) f w')) = stdout_of (hist w') @
       join_items f (map (\<lambda>e. listed_entry e (cache_entry_expired e t))
         (filter occupied (drop (Suc (unat i)) (table (mem w)))))"
      using step.IH[OF True e[symmetric] refl] step.prems lt m u by simp
    have at: "entry_at (mem w) i = slots (mem w) ! unat i"
      using lt step.prems(1) by (simp add: entry_at_eq)
    have loop: "list_loop env i first w = list_loop env (i + 1) f w'"
      using True e by (subst list_loop.simps) simp
    have "f = first \<and> w' = w" if "\<not> occupied (slots (mem w) ! unat i)"
      using that e at by (simp add: list_entry_def)
    moreover have "\<not> f \<and> stdout_of (hist w') = stdout_of (hist w) @ (if first then [] else '','') @
        listed_entry (slots (mem w) ! unat i) (cache_entry_expired (slots (mem w) ! unat i) t)"
      if "occupied (slots (mem w) ! unat i)"
      using that e at step.prems(2)
      by (cases first) (auto simp: list_entry_def read_clock_eq Let_def)
    ultimately show ?thesis using loop ih d by (cases "occupied (slots (mem w) ! unat i)") simp_all
  qed
qed

definition listed :: "region \<Rightarrow> CacheEntry list" where
  "listed r = filter occupied (table r)"

lemma list_command_spec:
  assumes wf: "table_wf (acquired_read env w)" and lock: "rdlock_rc env (hist w) = 0"
    and t: "time_now env = (\<lambda>h. t)"
  defines "r \<equiv> acquired_read env w"
  shows "fst (list_command env w) = 0 \<and>
     stdout_of (hist (snd (list_command env w))) = stdout_of (hist w) @
       ''{\"items\":['' @
       join_items True (map (\<lambda>e. listed_entry e (cache_entry_expired e t)) (listed r)) @
       ''],\"stats\":'' @ stats_text (hdr r) @ ''}'' @ NL"
proof -
  let ?v = "cout ''{\"items\":['' \<lparr>mem = r, hist = Read_lock 0 # hist w\<rparr>"
  have "layout_ok (mem ?v)" using wf by (simp add: layout_wf r_def)
  from list_loop_output[OF this t, of 0 True]
  have "stdout_of (hist (list_loop env 0 True ?v)) = stdout_of (hist ?v) @
      join_items True (map (\<lambda>e. listed_entry e (cache_entry_expired e t)) (listed r))"
    by (simp add: listed_def)
  moreover have "bridge_rdlock env w = (True, \<lparr>mem = r, hist = Read_lock 0 # hist w\<rparr>)"
    using lock by (simp add: bridge_rdlock_def acquired_read_def emit_def set_mem_def Let_def r_def)
  ultimately show ?thesis
    by (simp add: list_command_def print_stats_def Let_def)
qed

text \<open>Its entries are the bindings of the map, each key once.\<close>

lemma set_listed: "layout_ok r \<Longrightarrow> set (listed r) = (\<lambda>p. slots r ! p) ` held_slots r"
  by (auto simp: listed_def held_slots_def in_set_conv_nth image_iff)

lemma listed_map:
  assumes wf: "table_wf r"
  shows "map_of (map (\<lambda>e. (cstr (slot_key e), entry_item e)) (listed r)) = abs_map r"
    and "distinct (map (\<lambda>e. cstr (slot_key e)) (listed r))"
proof -
  have lay: "layout_ok r" using wf by (rule layout_wf)
  have "distinct (map (\<lambda>e. cstr (slot_key e)) (listed r)) \<and> length (listed r) = card (dom (abs_map r))"
  proof -
    have len: "length (listed r) = card (dom (abs_map r))"
      using wf_count[OF wf] entry_count_card[OF wf] by (simp add: listed_def count_if_def)
    have "set (map (\<lambda>e. cstr (slot_key e)) (listed r)) = dom (abs_map r)"
      unfolding dom_abs_map[OF wf] by (simp add: set_listed[OF lay] image_image)
    then have "card (set (map (\<lambda>e. cstr (slot_key e)) (listed r)))
        = length (map (\<lambda>e. cstr (slot_key e)) (listed r))" using len by simp
    then show ?thesis using len by (simp only: card_distinct)
  qed
  then show d: "distinct (map (\<lambda>e. cstr (slot_key e)) (listed r))" by blast
  show "map_of (map (\<lambda>e. (cstr (slot_key e), entry_item e)) (listed r)) = abs_map r"
  proof (rule abs_map_eqI[OF wf, symmetric])
    fix k p assume p: "p < cap r" "view r p = Held k"
    then have "slots r ! p \<in> set (listed r)" "cstr (slot_key (slots r ! p)) = k"
      using lay by (auto simp: listed_def view_def in_set_conv_nth intro!: exI[of _ p])
    then have "(k, entry_item (slots r ! p)) \<in> set (map (\<lambda>e. (cstr (slot_key e), entry_item e)) (listed r))"
      by force
    with d show "map_of (map (\<lambda>e. (cstr (slot_key e), entry_item e)) (listed r)) k
        = Some (entry_item (slots r ! p))"
      by (intro map_of_is_SomeI) (simp_all add: o_def)
  next
    fix k assume no: "\<And>p. p < cap r \<Longrightarrow> view r p \<noteq> Held k"
    have "k \<notin> fst ` set (map (\<lambda>e. (cstr (slot_key e), entry_item e)) (listed r))"
      using no unfolding set_map set_listed[OF lay] image_image
      by (fastforce simp: held_slots_def view_def)
    then show "map_of (map (\<lambda>e. (cstr (slot_key e), entry_item e)) (listed r)) k = None"
      by (simp only: map_of_eq_None_iff not_False_eq_True)
  qed
qed

lemma put_command_spec:
  assumes wf: "table_wf (acquired_write env w)" and k: "key_fits key" and v: "value_fits val"
    and lock: "wrlock_rc env (hist w) = 0"
  shows "case (case ttl_text of None \<Rightarrow> Some 0 | Some t \<Rightarrow> parse_ttl t) of
      None \<Rightarrow> fst (put_command env key val ttl_text w) = 1 \<and>
        mem (snd (put_command env key val ttl_text w)) = mem w \<and>
        stdout_of (hist (snd (put_command env key val ttl_text w))) = stdout_of (hist w)
    | Some ttl \<Rightarrow> fst (put_command env key val ttl_text w) = 0 \<and>
        put_result env key val ttl w (snd (put_command env key val ttl_text w)) \<and>
        stdout_of (hist (snd (put_command env key val ttl_text w)))
          = stdout_of (hist w) @ ''{\"ok\":true}'' @ NL"
proof (cases "case ttl_text of None \<Rightarrow> Some 0 | Some t \<Rightarrow> parse_ttl t")
  case None
  then show ?thesis by (simp add: put_command_def)
next
  case (Some ttl)
  obtain ok w' where r: "cache_put_ttl env Mapped_base (Some key) (Some val) ttl w = (ok, w')"
    by fastforce
  have "stdout_of (hist w') = stdout_of (hist w)"
    using stdout_operations(1)[of env Mapped_base "Some key" "Some val" ttl w] r by simp
  with cache_put_ttl_spec[OF wf k v lock r] r Some show ?thesis
    by (simp add: put_command_def put_result_def)
qed

end
