(* ===== verification/Drivers.thy ===== *)
theory Drivers
  imports Telemetry Bridge
begin

text \<open>
  The demonstration programs: \<open>src/main.cpp\<close> (the standalone demo), \<open>src/writer.cpp\<close>,
  \<open>src/reader.cpp\<close> and \<open>src/cleanup.cpp\<close>.  Each \<open>main\<close> returns its exit status and the state;
  a \<open>sleep\<close> is an event of the history, so that the clock of the environment can advance over
  it, and the other processes act at the next lock as always.
\<close>

section \<open>The programs\<close>

definition sleep :: "nat \<Rightarrow> world \<Rightarrow> world" where
  "sleep n w = emit (Sleep n) w"

text \<open>\<open>shm_unlink\<close>: whether it returned zero, whether \<open>errno\<close> is \<open>ENOENT\<close> otherwise.\<close>

definition shm_unlink :: "'a os_env_scheme \<Rightarrow> string \<Rightarrow> world \<Rightarrow> int \<times> bool \<times> world" where
  "shm_unlink env name w =
     (let (rc, enoent) = shm_unlink_r env (hist w) name in (rc, enoent, emit (Shm_unlink name rc) w))"

definition cleanup_main :: "'a os_env_scheme \<Rightarrow> world \<Rightarrow> int \<times> world" where
  "cleanup_main env w =
     (let w = cout (''[OS Cleanup] Removing the named MemSync shared-memory cache...'' @ NL) w;
          (rc, enoent, w) = shm_unlink env cache_shared_memory_name w
      in if rc = 0
         then (0, cout (''[SUCCESS] Unlinked shared memory: '' @ cache_shared_memory_name @ NL) w)
         else if enoent then (0, cout (''[INFO] No shared-memory cache exists.'' @ NL) w)
         else (1, emit (Perror ''Could not unlink shared-memory cache'') w))"

text \<open>The demo's steps between opening and closing the cache.\<close>

definition success :: "bool \<Rightarrow> string" where
  "success ok = (if ok then ''SUCCESS'' else ''FAILED'') @ NL"

definition demo_crud :: "'a env_scheme \<Rightarrow> char list \<Rightarrow> u64 \<Rightarrow> world \<Rightarrow> char list \<times> u64 \<times> world" where
  "demo_crud env val stamp w =
     (let (put_ok, w) = cache_put env Mapped_base (Some ''user:101'') (Some ''Sarbesh Chatterjee - Lead'') w;
          w = cout (''[PUT] Inserted 'user:101': '' @ success put_ok) w;
          (get_ok, out, ots, w) = cache_get env Mapped_base (Some ''user:101'') (Some val) (Some stamp) w;
          val = the out; stamp = the ots;
          w = (if get_ok then cout (''[GET] Found 'user:101': '' @ cstr val @ NL) w else w);
          (delete_ok, w) = cache_delete env Mapped_base (Some ''user:101'') w;
          w = cout (''[DELETE] user:101: '' @ success delete_ok) w;
          (get_after_delete, out, ots, w) =
            cache_get env Mapped_base (Some ''user:101'') (Some val) (Some stamp) w;
          w = (if \<not> get_after_delete then cout (''[GET] user:101 is absent (cache miss)'' @ NL) w else w);
          (reinsert_ok, w) = cache_put env Mapped_base (Some ''user:102'') (Some ''Alex Vance - Dev'') w;
          w = cout (''[PUT] Inserted 'user:102': '' @ success reinsert_ok) w
      in (the out, the ots, w))"

definition demo_ttl :: "'a env_scheme \<Rightarrow> char list \<Rightarrow> u64 \<Rightarrow> world \<Rightarrow> world" where
  "demo_ttl env val stamp w =
     (let (ttl_put_ok, w) =
            cache_put_ttl env Mapped_base (Some ''session:temp'') (Some ''short_lived_token'') 2 w;
          (found_early, out, ots, w) =
            cache_get env Mapped_base (Some ''session:temp'') (Some val) (Some stamp) w;
          w = (if ttl_put_ok \<and> found_early
               then cout (''[TTL Test] Initially found: '' @ cstr (the out) @ NL) w else w);
          w = cout (''[TTL Test] Sleeping for 3 seconds...'' @ NL) w;
          w = sleep 3 w;
          (found_late, _, _, w) = cache_get env Mapped_base (Some ''session:temp'') out ots w
      in if \<not> found_late then cout (''[TTL Test] Expired key was lazily removed.'' @ NL) w else w)"

definition demo_main :: "'a os_env_scheme \<Rightarrow> world \<Rightarrow> int \<times> world" where
  "demo_main env w =
     (let (rc, enoent, w) = shm_unlink env cache_shared_memory_name w
      in if rc = - 1 \<and> \<not> enoent
         then (1, emit (Perror ''Could not reset the demo shared-memory cache'') w)
      else let (ok, mapping, w) = cache_open_shared env (Some empty_mapping) True None w
      in if \<not> ok then (1, w)
      else let w = cout (''=== MemSync Engine Comprehensive Test ==='' @ NL) w;
               (val, stamp, w) = demo_crud env (replicate MAX_VAL_LEN NUL) 0 w;
               w = demo_ttl env val stamp w;
               w = cache_print_telemetry env Mapped_base w;
               (mapping, w) = cache_close_shared env mapping w;
               (rc, enoent, w) = shm_unlink env cache_shared_memory_name w
      in if rc = - 1 then (1, emit (Perror ''Could not remove the demo shared-memory cache'') w)
         else (0, cout (''=== Comprehensive Test Completed Successfully ==='' @ NL) w))"

text \<open>The keys and values of the writer, and the keys of the reader.\<close>

definition demo_pairs :: "(string \<times> string) list" where
  "demo_pairs = [(''db:user:1'', ''Alice_Admin''), (''db:user:2'', ''Bob_Operator''), (''db:status'', ''ACTIVE'')]"

text \<open>The loop of the writer; it stops at the first failure of its own read lock.\<close>

fun writer_loop :: "'a env_scheme \<Rightarrow> (string \<times> string) list \<Rightarrow> world \<Rightarrow> bool \<times> world" where
  "writer_loop env [] w = (True, w)"
| "writer_loop env ((key, val) # pairs) w =
     (let (ok, w) = cache_put env Mapped_base (Some key) (Some val) w;
          (locked, w) = bridge_rdlock env w
      in if \<not> locked then (False, cerr (''[Writer] Could not acquire cache read lock.'' @ NL) w)
      else let count = entry_count (hdr (mem w));
               w = bridge_unlock env w;
               w = cout (''[Writer] PUT '' @ key @ '' -> '' @ (if ok then ''SUCCESS'' else ''FAILED'') @
                     '' | Active count: '' @ decimal (unat count) @ NL) w
      in writer_loop env pairs (sleep 2 w))"

definition writer_main :: "'a os_env_scheme \<Rightarrow> world \<Rightarrow> int \<times> world" where
  "writer_main env w =
     (let (ok, mapping, w) = cache_open_shared env (Some empty_mapping) True None w
      in if \<not> ok then (1, w)
      else let w = cout (''[Writer] '' @ (if map_created (the mapping) then ''Initialized'' else ''Attached to'') @
                     '' shared cache. Capacity: '' @ decimal (unat (capacity (hdr (mem w)))) @ NL) w;
               (finished, w) = writer_loop env demo_pairs w;
               (mapping, w) = cache_close_shared env mapping w
      in if \<not> finished then (1, w) else (0, cout (''[Writer] Done.'' @ NL) w))"

text \<open>
  One tick of the reader: the three keys in turn, through the same value buffer and timestamp.
\<close>

fun reader_gets :: "'a env_scheme \<Rightarrow> string list \<Rightarrow> char list \<Rightarrow> u64 \<Rightarrow> world \<Rightarrow> char list \<times> u64 \<times> world"
  where
  "reader_gets env [] val stamp w = (val, stamp, w)"
| "reader_gets env (key # keys) val stamp w =
     (let (hit, out, ots, w) = cache_get env Mapped_base (Some key) (Some val) (Some stamp) w;
          w = (if hit
               then cout (''[Reader] GET '' @ key @ '' = '' @ [CHR 0x27] @ cstr (the out) @ [CHR 0x27] @ '' (ts='' @
                      decimal (unat (the ots)) @ '')'' @ NL) w
               else cout (''[Reader] GET '' @ key @ '' -> MISS'' @ NL) w)
      in reader_gets env keys (the out) (the ots) w)"

fun reader_ticks :: "'a env_scheme \<Rightarrow> nat list \<Rightarrow> char list \<Rightarrow> u64 \<Rightarrow> world \<Rightarrow> world" where
  "reader_ticks env [] val stamp w = w"
| "reader_ticks env (tick # ticks) val stamp w =
     (let w = cout (NL @ ''--- Tick '' @ decimal (tick + 1) @ '' ---'' @ NL) w;
          (val, stamp, w) = reader_gets env (map fst demo_pairs) val stamp w;
          w = cache_print_telemetry env Mapped_base w
      in reader_ticks env ticks val stamp (sleep 2 w))"

text \<open>The value buffer of the reader is not initialised; its first contents are an argument.\<close>

definition reader_main :: "'a os_env_scheme \<Rightarrow> char list \<Rightarrow> world \<Rightarrow> int \<times> world" where
  "reader_main env val w =
     (let (ok, mapping, w) = cache_open_shared env (Some empty_mapping) False None w
      in if \<not> ok then (1, cerr (''[Reader] Start the writer or initialize the cache first.'' @ NL) w)
      else let w = cout (''[Reader] Polling shared memory using the process-shared '' @
                     ''reader-writer lock...'' @ NL) w;
               w = reader_ticks env [0..<5] val 0 w;
               (mapping, w) = cache_close_shared env mapping w
      in (0, cout (''[Reader] Done.'' @ NL) w))"

end
