(* ===== verification/Programs.thy ===== *)
theory Programs
  imports Drivers
begin

text \<open>
  Facts about the demonstration programs: none leaves a descriptor or mapping behind or holds the
  lock, the identity of a published region survives every operation, and a reader that attaches
  to a region a writer has filled finds what the writer stored.
\<close>

section \<open>Resources and the lock\<close>

lemma fold_cout_frame [simp]:
  "mem (fold cout ls w) = mem w" "resources_of (hist (fold cout ls w)) = resources_of (hist w)"
  "phase (hist (fold cout ls w)) = phase (hist w)"
  "stdout_of (hist (fold cout ls w)) = stdout_of (hist w) @ concat ls"
  by (induction ls arbitrary: w) simp_all

lemma sleep_frame [simp]:
  "mem (sleep n w) = mem w" "resources_of (hist (sleep n w)) = resources_of (hist w)"
  "phase (hist (sleep n w)) = phase (hist w)" "stdout_of (hist (sleep n w)) = stdout_of (hist w)"
  by (simp_all add: sleep_def)

lemma resources_telemetry [simp]:
  "resources_of (hist (cache_print_telemetry env base w)) = resources_of (hist w)"
  by (simp add: cache_print_telemetry_def Let_def split_beta)

lemma phase_telemetry:
  "unlock_ok env \<Longrightarrow> phase (hist w) = Idle \<Longrightarrow> phase (hist (cache_print_telemetry env base w)) = Idle"
  by (simp add: cache_print_telemetry_def Let_def split_beta)

lemma telemetry_acquired:
  assumes "rdlock_rc env (hist w) = 0"
  shows "mem (cache_print_telemetry env Mapped_base w) = acquired_read env w"
    and "stdout_of (hist (cache_print_telemetry env Mapped_base w)) =
      stdout_of (hist w) @ concat (telemetry_lines (hdr (acquired_read env w)))"
  using assms by (simp_all add: cache_print_telemetry_def Let_def lock_for_read_ok)

lemma resources_writer_loop [simp]:
  "resources_of (hist (snd (writer_loop env pairs w))) = resources_of (hist w)"
  by (induction pairs arbitrary: w) (auto simp: Let_def split_beta cache_put_def)

lemma phase_writer_loop:
  "unlock_ok env \<Longrightarrow> phase (hist w) = Idle \<Longrightarrow> phase (hist (snd (writer_loop env pairs w))) = Idle"
  by (induction pairs arbitrary: w)
    (auto simp: Let_def split_beta cache_put_def phase_cache_put_ttl phase_bridge_lock)

lemma resources_reader_gets [simp]:
  "resources_of (hist (snd (snd (reader_gets env keys val stamp w)))) = resources_of (hist w)"
  by (induction keys arbitrary: val stamp w) (simp_all add: Let_def split_beta)

lemma phase_reader_gets:
  "unlock_ok env \<Longrightarrow> phase (hist w) = Idle \<Longrightarrow>
   phase (hist (snd (snd (reader_gets env keys val stamp w)))) = Idle"
  by (induction keys arbitrary: val stamp w) (simp_all add: Let_def split_beta phase_cache_get)

lemma resources_reader_ticks [simp]:
  "resources_of (hist (reader_ticks env ticks val stamp w)) = resources_of (hist w)"
  by (induction ticks arbitrary: val stamp w) (simp_all add: Let_def split_beta)

lemma phase_reader_ticks:
  "unlock_ok env \<Longrightarrow> phase (hist w) = Idle \<Longrightarrow> phase (hist (reader_ticks env ticks val stamp w)) = Idle"
  by (induction ticks arbitrary: val stamp w)
    (simp_all add: Let_def split_beta phase_reader_gets phase_telemetry)

lemma resources_demo [simp]:
  "resources_of (hist (snd (snd (demo_crud env val stamp w)))) = resources_of (hist w)"
  "resources_of (hist (demo_ttl env val stamp w)) = resources_of (hist w)"
  by (simp_all add: demo_crud_def demo_ttl_def cache_put_def Let_def split_beta)

lemma phase_demo:
  assumes "unlock_ok env" "phase (hist w) = Idle"
  shows "phase (hist (snd (snd (demo_crud env val stamp w)))) = Idle"
    and "phase (hist (demo_ttl env val stamp w)) = Idle"
  using assms by (simp_all add: demo_crud_def demo_ttl_def cache_put_def Let_def split_beta
      phase_cache_put_ttl phase_cache_get phase_cache_delete)

text \<open>What a program ends with: everything but the names it may have created or removed.\<close>

definition same_holdings :: "history \<Rightarrow> history \<Rightarrow> bool" where
  "same_holdings h h' \<longleftrightarrow>
     open_fds (resources_of h') = open_fds (resources_of h) \<and>
     mapped (resources_of h') = mapped (resources_of h) \<and>
     faults (resources_of h') = faults (resources_of h)"

lemma same_holdings_refl [simp]: "resources_of h' = resources_of h \<Longrightarrow> same_holdings h h'"
  by (simp add: same_holdings_def)

lemma same_holdings_trans: "same_holdings h h' \<Longrightarrow> same_holdings h' h'' \<Longrightarrow> same_holdings h h''"
  by (simp add: same_holdings_def)

lemma resources_shm_unlink:
  "shm_unlink env name w = (rc, e, w') \<Longrightarrow> same_holdings (hist w) (hist w') \<and>
     phase (hist w') = phase (hist w) \<and> mem w' = mem w"
  by (auto simp: shm_unlink_def same_holdings_def split: prod.splits)

lemma session_closed:
  assumes "cache_open_shared env (Some empty_mapping) create None w = (True, m, w1)"
    and "resources_of (hist w2) = resources_of (hist w1)"
    and "cache_close_shared env m w2 = (m', w3)"
  shows "same_holdings (hist w) (hist w3)"
proof -
  obtain m0 where m0: "m = Some m0" "map_fd m0 \<noteq> - 1"
    by (rule cache_open_shared_mapping[OF assms(1)]) auto
  have "resources_of (hist w2) = adds_mapping m0 (chosen_name None) (resources_of (hist w))"
    using cache_open_shared_resources[OF assms(1)] assms(2) m0 by simp
  from cache_close_shared_resources[OF this m0(2), of env] assms(3) m0(1) show ?thesis
    by (simp add: same_holdings_def)
qed

lemma failed_open_holdings:
  "cache_open_shared env (Some empty_mapping) create None w = (False, m, w1) \<Longrightarrow>
   same_holdings (hist w) (hist w1)"
  using cache_open_shared_resources[of env empty_mapping create None w False m w1] by simp

text \<open>The common shape of the programs: open, some work, close.\<close>

lemma writer_main_ends:
  assumes "unlock_ok env" "phase (hist w) = Idle"
  shows "same_holdings (hist w) (hist (snd (writer_main env w))) \<and>
    phase (hist (snd (writer_main env w))) = Idle \<and> fst (writer_main env w) \<in> {0, 1}"
proof -
  obtain ok m w1 where o: "cache_open_shared env (Some empty_mapping) True None w = (ok, m, w1)"
    by (metis prod_cases3)
  have p: "phase (hist w1) = Idle" using phase_cache_open_shared[OF assms, of "Some empty_mapping" True None] o by simp
  show ?thesis
  proof (cases ok)
    case False
    with o p failed_open_holdings show ?thesis by (fastforce simp: writer_main_def)
  next
    case True
    let ?v = "cout (''[Writer] '' @ (if map_created (the m) then ''Initialized'' else ''Attached to'') @
      '' shared cache. Capacity: '' @ decimal (unat (capacity (hdr (mem w1)))) @ NL) w1"
    from o True have o': "cache_open_shared env (Some empty_mapping) True None w = (True, m, w1)" by simp
    obtain b w2 where l: "writer_loop env demo_pairs ?v = (b, w2)" by fastforce
    obtain m' w3 where c: "cache_close_shared env m w2 = (m', w3)" by fastforce
    have "phase (hist (snd (writer_loop env demo_pairs ?v))) = Idle"
      using assms(1) p by (simp add: phase_writer_loop)
    then have "phase (hist w2) = Idle" by (simp only: l snd_conv)
    then have "phase (hist (snd (cache_close_shared env m w2))) = Idle"
      by (simp only: phase_cache_close_shared)
    then have "phase (hist w3) = Idle" by (simp only: c snd_conv)
    moreover have "resources_of (hist (snd (writer_loop env demo_pairs ?v))) = resources_of (hist w1)"
      by simp
    then have "resources_of (hist w2) = resources_of (hist w1)" by (simp only: l snd_conv)
    from session_closed[OF o' this c] have "same_holdings (hist w) (hist w3)"
      by simp
    ultimately show ?thesis
      using o True l c by (simp add: writer_main_def same_holdings_def)
  qed
qed

lemma reader_main_ends:
  assumes "unlock_ok env" "phase (hist w) = Idle"
  shows "same_holdings (hist w) (hist (snd (reader_main env buf w))) \<and>
    phase (hist (snd (reader_main env buf w))) = Idle \<and> fst (reader_main env buf w) \<in> {0, 1}"
proof -
  obtain ok m w1 where o: "cache_open_shared env (Some empty_mapping) False None w = (ok, m, w1)"
    by (metis prod_cases3)
  have p: "phase (hist w1) = Idle" using phase_cache_open_shared[OF assms, of "Some empty_mapping" False None] o by simp
  show ?thesis
  proof (cases ok)
    case False
    with failed_open_holdings[of env False w m w1] o p show ?thesis
      by (simp add: reader_main_def same_holdings_def)
  next
    case True
    let ?v = "cout (''[Reader] Polling shared memory using the process-shared '' @
      ''reader-writer lock...'' @ NL) w1"
    let ?w2 = "reader_ticks env [0..<5] buf 0 ?v"
    from o True have o': "cache_open_shared env (Some empty_mapping) False None w = (True, m, w1)" by simp
    obtain m' w3 where c: "cache_close_shared env m ?w2 = (m', w3)" by fastforce
    have "phase (hist ?w2) = Idle" using phase_reader_ticks[OF assms(1), of ?v] p by simp
    then have "phase (hist (snd (cache_close_shared env m ?w2))) = Idle"
      by (simp only: phase_cache_close_shared)
    then have "phase (hist w3) = Idle" by (simp only: c snd_conv)
    moreover have "resources_of (hist ?w2) = resources_of (hist w1)" by simp
    from session_closed[OF o' this c] have "same_holdings (hist w) (hist w3)"
      by simp
    ultimately show ?thesis
      using o True c by (simp add: reader_main_def same_holdings_def del: upt_rec_numeral)
  qed
qed

lemma demo_main_ends:
  assumes "unlock_ok env" "phase (hist w) = Idle"
  shows "same_holdings (hist w) (hist (snd (demo_main env w))) \<and>
    phase (hist (snd (demo_main env w))) = Idle \<and> fst (demo_main env w) \<in> {0, 1}"
proof -
  obtain rc enoent w0 where u: "shm_unlink env cache_shared_memory_name w = (rc, enoent, w0)"
    by (metis prod_cases3)
  have s0: "same_holdings (hist w) (hist w0)" and p0: "phase (hist w0) = Idle"
    using resources_shm_unlink[OF u] assms(2) by simp_all
  obtain ok m w1 where o: "cache_open_shared env (Some empty_mapping) True None w0 = (ok, m, w1)"
    by (metis prod_cases3)
  have "phase (hist (snd (snd (cache_open_shared env (Some empty_mapping) True None w0)))) = Idle"
    by (rule phase_cache_open_shared[OF assms(1) p0])
  then have p: "phase (hist w1) = Idle" by (simp only: o snd_conv)
  show ?thesis
  proof (cases "(rc = - 1 \<and> \<not> enoent) \<or> \<not> ok")
    case True
    with u o s0 p0 p failed_open_holdings[of env True w0 m w1] same_holdings_trans[OF s0, of "hist w1"]
    show ?thesis by (auto simp: demo_main_def same_holdings_def)
  next
    case False
    with o have o': "cache_open_shared env (Some empty_mapping) True None w0 = (True, m, w1)" by simp
    let ?v = "cout (''=== MemSync Engine Comprehensive Test ==='' @ NL) w1"
    obtain val stamp w2 where c: "demo_crud env (replicate MAX_VAL_LEN NUL) 0 ?v = (val, stamp, w2)"
      by (metis prod_cases3)
    let ?w3 = "cache_print_telemetry env Mapped_base (demo_ttl env val stamp w2)"
    have "resources_of (hist (snd (snd (demo_crud env (replicate MAX_VAL_LEN NUL) 0 ?v)))) = resources_of (hist w1)"
      by simp
    then have r: "resources_of (hist w2) = resources_of (hist w1)" by (simp only: c snd_conv)
    have "phase (hist (snd (snd (demo_crud env (replicate MAX_VAL_LEN NUL) 0 ?v)))) = Idle"
      by (rule phase_demo(1)[OF assms(1)]) (simp add: p)
    then have "phase (hist w2) = Idle" by (simp only: c snd_conv)
    then have p3: "phase (hist ?w3) = Idle" by (intro phase_telemetry phase_demo(2) assms(1))
    obtain m' w4 where cl: "cache_close_shared env m ?w3 = (m', w4)" by fastforce
    have "phase (hist (snd (cache_close_shared env m ?w3))) = Idle"
      using p3 by (simp only: phase_cache_close_shared)
    then have p4: "phase (hist w4) = Idle" by (simp only: cl snd_conv)
    have "resources_of (hist ?w3) = resources_of (hist w1)" using r by simp
    from same_holdings_trans[OF s0 session_closed[OF o' this cl]]
    have s4: "same_holdings (hist w) (hist w4)" .
    obtain rc' e' w5 where u': "shm_unlink env cache_shared_memory_name w4 = (rc', e', w5)"
      by (metis prod_cases3)
    from resources_shm_unlink[OF u'] p4 have p5: "phase (hist w5) = Idle"
      and s5: "same_holdings (hist w4) (hist w5)" by simp_all
    from False have "\<not> (rc = - 1 \<and> \<not> enoent)" by blast
    then have "demo_main env w =
      (if rc' = - 1 then (1, emit (Perror ''Could not remove the demo shared-memory cache'') w5)
       else (0, cout (''=== Comprehensive Test Completed Successfully ==='' @ NL) w5))"
      unfolding demo_main_def u o' c cl u' Let_def split_conv if_False if_True not_True_eq_False
      by (simp only: if_False c cl u' split_conv)
    with same_holdings_trans[OF s4 s5] p5 show ?thesis by (simp add: same_holdings_def)
  qed
qed

lemma cleanup_main_ends:
  assumes "phase (hist w) = Idle"
  shows "same_holdings (hist w) (hist (snd (cleanup_main env w))) \<and>
    phase (hist (snd (cleanup_main env w))) = Idle \<and> fst (cleanup_main env w) \<in> {0, 1}"
  using assms by (auto simp: cleanup_main_def shm_unlink_def same_holdings_def Let_def split: prod.splits)

section \<open>A published region stays published\<close>

text \<open>What an attaching process checks of the header, besides the number of entries.\<close>

definition identity :: "region \<Rightarrow> u32 \<times> u32 \<times> u32 \<times> u32" where
  "identity r = (magic (hdr r), version (hdr r), capacity (hdr r), data_offset (hdr r))"

lemma identity_validates:
  "identity r' = identity r \<Longrightarrow>
   cache_validate_layout (Some r') sz = cache_validate_layout (Some r) sz"
  by (simp add: identity_def cache_validate_layout_def)

lemma identity_writes [simp]:
  "identity (remove_entry r p) = identity r" "identity (add_collisions r c) = identity r"
  "identity (store_entry r p k v now ttl) = identity r" "identity (rewrite_entry r p v now) = identity r"
  "identity (count_get hit c r) = identity r"
  by (simp_all add: identity_def remove_entry_def add_collisions_def store_entry_def
      rewrite_entry_def count_get_def Let_def)

lemma identity_reclaim [simp]: "identity (reclaim_expired r now) = identity r"
proof -
  have "identity (reclaim_loop r now i) = identity r" for i
  proof (induction r now i rule: reclaim_loop.induct)
    case (1 r now i)
    then show ?case by (subst reclaim_loop.simps) (simp add: Let_def)
  qed
  then show ?thesis by (simp add: reclaim_expired_def)
qed

lemma identity_evict [simp]: "identity (snd (evict_oldest_write r)) = identity r"
  by (simp add: evict_oldest_write_def Let_def)

lemma identity_search [simp]: "identity (mem (snd (search_counted key w))) = identity (mem w)"
  by (simp add: search_counted_def split_beta)

lemma mem_read_clock [simp]: "mem (snd (read_clock env w)) = mem w"
  by (simp add: read_clock_eq)

lemma identity_choose_slot [simp]: "identity (mem (snd (choose_slot env key w))) = identity (mem w)"
  by (simp add: choose_slot_def Let_def split_beta)

lemma identity_lock [simp]:
  assumes "alone env"
  shows "identity (mem (snd (lock_for_read env w))) = identity (mem w)"
    and "identity (mem (snd (lock_for_write env w))) = identity (mem w)"
  using assms by (simp_all add: lock_for_read_def lock_for_write_def Let_def alone_def)

lemma identity_operations:
  assumes "alone env"
  shows "identity (mem (snd (cache_put_ttl env base key val ttl w))) = identity (mem w)"
    and "identity (mem (snd (snd (snd (cache_get env base key out ots w))))) = identity (mem w)"
    and "identity (mem (snd (cache_update env base key val w))) = identity (mem w)"
    and "identity (mem (snd (cache_delete env base key w))) = identity (mem w)"
  using assms by (simp_all add: cache_put_ttl_def cache_get_def cache_update_def cache_delete_def
      add_get_metrics_def get_expired_def Let_def split_beta split: probe_exit.split)

section \<open>The writer\<close>

text \<open>The region holds a pair that never expires.\<close>

definition holds_pair :: "region \<Rightarrow> string \<times> string \<Rightarrow> bool" where
  "holds_pair r kv \<longleftrightarrow> (case kv of (k, v) \<Rightarrow>
     \<exists>t. abs_map r k = Some \<lparr>item_value = v, item_time = t, item_ttl = 0\<rparr>)"

text \<open>A pair as the C strings of the program: no terminator inside, and within the bounds.\<close>

definition plain_pair :: "string \<times> string \<Rightarrow> bool" where
  "plain_pair kv \<longleftrightarrow> (case kv of (k, v) \<Rightarrow> key_fits k \<and> value_fits v \<and> cstr k = k \<and> cstr v = v)"

lemma demo_pairs_plain: "list_all plain_pair demo_pairs" "distinct (map fst demo_pairs)"
  by (simp_all add: demo_pairs_def plain_pair_def key_fits_def value_fits_def strlen_def
      MAX_KEY_LEN_def MAX_VAL_LEN_def)

lemma card_insert_bound: "card (insert x A) \<le> Suc (card A)"
  by (cases "finite A") (simp_all add: card_insert_if)

lemma put_with_room:
  assumes env: "alone env" "locks_ok env" and wf: "table_wf (mem w)" and kv: "plain_pair (k, v)"
    and room: "card (dom (abs_map (mem w))) < cap (mem w)"
    and put: "cache_put env Mapped_base (Some k) (Some v) w = (ok, w')"
  shows "ok" "table_wf (mem w')" "identity (mem w') = identity (mem w)"
    "holds_pair (mem w') (k, v)" "k' \<noteq> k \<Longrightarrow> abs_map (mem w') k' = abs_map (mem w) k'"
    "card (dom (abs_map (mem w'))) \<le> Suc (card (dom (abs_map (mem w))))"
proof -
  have kf: "key_fits k" "value_fits v" "cstr k = k" "cstr v = v" using kv by (simp_all add: plain_pair_def)
  have a: "acquired_write env w = mem w" and l: "wrlock_rc env (hist w) = 0"
    using env by (simp_all add: locks_ok_def)
  from cache_put_ttl_spec[OF _ kf(1,2) l put[unfolded cache_put_def]] wf a
  have ok: "ok" and r: "put_result env k v 0 w w'" by simp_all
  have "\<not> full_for (mem w) k" using room by (simp add: full_for_def)
  with r have m: "abs_map (mem w') = (abs_map (mem w))
      (k \<mapsto> \<lparr>item_value = v, item_time = put_time env k w, item_ttl = 0\<rparr>)"
    and wf': "table_wf (mem w')"
    by (auto simp: put_result_def room_made_def a kf)
  show ok "table_wf (mem w')" by fact+
  show "identity (mem w') = identity (mem w)"
    using identity_operations(1)[OF env(1), of Mapped_base "Some k" "Some v" 0 w] put
    by (simp add: cache_put_def)
  show "holds_pair (mem w') (k, v)" by (simp add: holds_pair_def m)
  show "abs_map (mem w') k' = abs_map (mem w) k'" if "k' \<noteq> k" using that by (simp add: m)
  show "card (dom (abs_map (mem w'))) \<le> Suc (card (dom (abs_map (mem w))))"
    unfolding m dom_fun_upd by (simp add: card_insert_bound)
qed

lemma bridge_rdlock_alone:
  "alone env \<Longrightarrow> locks_ok env \<Longrightarrow> bridge_rdlock env w = (True, emit (Read_lock 0) w)"
  by (simp add: bridge_rdlock_def Let_def locks_ok_def alone_def set_mem_def emit_def)

lemma holds_pair_other:
  "abs_map r' (fst q) = abs_map r (fst q) \<Longrightarrow> holds_pair r' q = holds_pair r q"
  by (simp add: holds_pair_def split_beta)

lemma writer_loop_stores:
  assumes env: "alone env" "locks_ok env"
  shows "table_wf (mem w) \<Longrightarrow> list_all plain_pair pairs \<Longrightarrow> distinct (map fst pairs) \<Longrightarrow>
     card (dom (abs_map (mem w))) + length pairs \<le> cap (mem w) \<Longrightarrow>
     writer_loop env pairs w = (b, w') \<Longrightarrow>
     b \<and> table_wf (mem w') \<and> identity (mem w') = identity (mem w) \<and>
     (\<forall>q\<in>set pairs. holds_pair (mem w') q) \<and>
     (\<forall>k. k \<notin> fst ` set pairs \<longrightarrow> abs_map (mem w') k = abs_map (mem w) k)"
proof (induction pairs arbitrary: w)
  case Nil
  then show ?case by simp
next
  case (Cons p pairs)
  obtain k v where p: "p = (k, v)" by fastforce
  obtain ok w1 where put: "cache_put env Mapped_base (Some k) (Some v) w = (ok, w1)" by fastforce
  have kv: "plain_pair (k, v)" and room: "card (dom (abs_map (mem w))) < cap (mem w)"
    using Cons.prems(2,4) p by simp_all
  note 1 = put_with_room[OF env Cons.prems(1) kv room put]
  have cap: "cap (mem w1) = cap (mem w)" using 1(3) by (simp add: identity_def)
  obtain w2 where w2: "writer_loop env pairs w2 = (b, w')" "mem w2 = mem w1"
  proof -
    define msg where "msg = ''[Writer] PUT '' @ k @ '' -> '' @ (if ok then ''SUCCESS'' else ''FAILED'') @
      '' | Active count: '' @ decimal (unat (entry_count (hdr (mem w1)))) @ NL"
    have "writer_loop env pairs (sleep 2 (cout msg (bridge_unlock env (emit (Read_lock 0) w1)))) = (b, w')"
      using Cons.prems(5) unfolding p writer_loop.simps put Let_def split_conv
        bridge_rdlock_alone[OF env] not_True_eq_False if_False emit_simps msg_def .
    then show ?thesis by (rule that) simp
  qed
  have ih: "b \<and> table_wf (mem w') \<and> identity (mem w') = identity (mem w2) \<and>
     (\<forall>q\<in>set pairs. holds_pair (mem w') q) \<and>
     (\<forall>k. k \<notin> fst ` set pairs \<longrightarrow> abs_map (mem w') k = abs_map (mem w2) k)"
  proof (rule Cons.IH[OF _ _ _ _ w2(1)])
    show "table_wf (mem w2)" using 1(2) w2(2) by simp
    show "list_all plain_pair pairs" "distinct (map fst pairs)" using Cons.prems(2,3) by simp_all
    show "card (dom (abs_map (mem w2))) + length pairs \<le> cap (mem w2)"
      using Cons.prems(4) 1(6) cap unfolding w2(2) by simp
  qed
  have "k \<notin> fst ` set pairs" using Cons.prems(3) p by simp
  with ih w2(2) have "abs_map (mem w') (fst (k, v)) = abs_map (mem w1) (fst (k, v))"
    by (metis fst_conv)
  from holds_pair_other[OF this] 1(4) have "holds_pair (mem w') (k, v)" by blast
  with ih p have "\<forall>q\<in>set (p # pairs). holds_pair (mem w') q" by auto
  moreover have "abs_map (mem w') k' = abs_map (mem w) k'" if "k' \<notin> fst ` set (p # pairs)" for k'
  proof -
    from that p have "k' \<noteq> k" "k' \<notin> fst ` set pairs" by auto
    with ih 1(5)[of k'] w2(2) show ?thesis by metis
  qed
  moreover have "identity (mem w') = identity (mem w)" using ih 1(3) w2(2) by metis
  ultimately show ?case using ih by blast
qed

section \<open>The reader\<close>

lemma get_holding:
  assumes env: "alone env" "locks_ok env" and wf: "table_wf (mem w)" and kv: "plain_pair (k, v)"
    and it: "abs_map (mem w) k = Some \<lparr>item_value = v, item_time = t, item_ttl = 0\<rparr>"
    and len: "MAX_VAL_LEN \<le> length val"
  obtains out w' where
    "cache_get env Mapped_base (Some k) (Some val) (Some stamp) w = (True, Some out, Some t, w')"
    "cstr out = v" "length out = length val" "mem w' = count_get True (extra (mem w) k) (mem w)"
    "stdout_of (hist w') = stdout_of (hist w)"
proof -
  have k: "key_fits k" "cstr k = k" using kv by (simp_all add: plain_pair_def)
  have a: "acquired_read env w = mem w" and l: "rdlock_rc env (hist w) = 0"
    and wl: "wrlock_rc env h = 0" for h
    using env by (simp_all add: locks_ok_def)
  have it': "abs_map (acquired_read env w) (cstr k) = Some \<lparr>item_value = v, item_time = t, item_ttl = 0\<rparr>"
    "\<not> item_expired \<lparr>item_value = v, item_time = t, item_ttl = 0\<rparr> (get_time env w)"
    using it by (simp_all add: a k(2) item_expired_def)
  have wf': "table_wf (acquired_read env w)" using wf by (simp add: a)
  obtain out u where g: "cache_get env Mapped_base (Some k) (Some val) (Some stamp) w =
       (True, Some out, Some t, snd (add_get_metrics env True (extra (mem w) k) u))"
    and o: "copied_out val v out" and u: "mem u = mem w"
    by (rule cache_get_hit[OF wf' k(1) l it', of val "Some stamp"]) (use len a k(2) in auto)
  show ?thesis
  proof (rule that[OF g])
    show "cstr out = v" "length out = length val" using o by (simp_all add: copied_out_def)
    show "mem (snd (add_get_metrics env True (extra (mem w) k) u))
        = count_get True (extra (mem w) k) (mem w)"
      using u env(1) wl by (simp add: mem_add_get_metrics)
    have "stdout_of (hist (snd (snd (snd (cache_get env Mapped_base (Some k) (Some val) (Some stamp) w)))))
        = stdout_of (hist w)" by (rule stdout_operations)
    then show "stdout_of (hist (snd (add_get_metrics env True (extra (mem w) k) u))) = stdout_of (hist w)"
      by (simp only: g snd_conv)
  qed
qed

definition written :: "region \<Rightarrow> string \<Rightarrow> u64" where
  "written r k = item_time (the (abs_map r k))"

definition get_line :: "region \<Rightarrow> string \<times> string \<Rightarrow> string" where
  "get_line r kv = (case kv of (k, v) \<Rightarrow>
     ''[Reader] GET '' @ k @ '' = '' @ [CHR 0x27] @ v @ [CHR 0x27] @ '' (ts='' @
     decimal (unat (written r k)) @ '')'' @ NL)"

text \<open>What the reader changes of a region: its counters, the misses excepted.\<close>

definition counted :: "nat \<Rightarrow> region \<Rightarrow> region \<Rightarrow> bool" where
  "counted n r r' \<longleftrightarrow> table_wf r' \<and> abs_map r' = abs_map r \<and> identity r' = identity r \<and>
     entry_count (hdr r') = entry_count (hdr r) \<and> total_misses (hdr r') = total_misses (hdr r) \<and>
     total_hits (hdr r') = total_hits (hdr r) + of_nat n"

lemma counted_refl: "table_wf r \<Longrightarrow> counted 0 r r"
  by (simp add: counted_def)

lemma counted_trans: "counted m r r' \<Longrightarrow> counted n r' r'' \<Longrightarrow> counted (m + n) r r''"
  by (simp add: counted_def)

lemma counted_get: "table_wf r \<Longrightarrow> counted 1 r (count_get True c r)"
  by (simp add: counted_def wf_count_get)

lemma counted_lines: "counted n r r' \<Longrightarrow> get_line r' = get_line r" "counted n r r' \<Longrightarrow> holds_pair r' = holds_pair r"
  by (simp_all add: counted_def get_line_def written_def holds_pair_def fun_eq_iff)

lemma reader_gets_hits:
  assumes env: "alone env" "locks_ok env"
  shows "table_wf (mem w) \<Longrightarrow> list_all plain_pair pairs \<Longrightarrow> list_all (holds_pair (mem w)) pairs \<Longrightarrow>
     MAX_VAL_LEN \<le> length val \<Longrightarrow>
     reader_gets env (map fst pairs) val stamp w = (val', stamp', w') \<Longrightarrow>
     counted (length pairs) (mem w) (mem w') \<and> length val' = length val \<and>
     stdout_of (hist w') = stdout_of (hist w) @ concat (map (get_line (mem w)) pairs)"
proof (induction pairs arbitrary: val stamp w)
  case Nil
  then show ?case by (simp add: counted_refl)
next
  case (Cons p pairs)
  obtain k v where p: "p = (k, v)" by fastforce
  obtain t where it: "abs_map (mem w) k = Some \<lparr>item_value = v, item_time = t, item_ttl = 0\<rparr>"
    using Cons.prems(3) p by (auto simp: holds_pair_def)
  have kv: "plain_pair (k, v)" using Cons.prems(2) p by simp
  obtain out w1 where g: "cache_get env Mapped_base (Some k) (Some val) (Some stamp) w = (True, Some out, Some t, w1)"
    and o: "cstr out = v" "length out = length val"
    and m: "mem w1 = count_get True (extra (mem w) k) (mem w)" "stdout_of (hist w1) = stdout_of (hist w)"
    by (rule get_holding[OF env Cons.prems(1) kv it Cons.prems(4)])
  let ?w2 = "cout (get_line (mem w) (k, v)) w1"
  have c1: "counted 1 (mem w) (mem ?w2)" using counted_get[OF Cons.prems(1)] m(1) by simp
  have "written (mem w) k = t" by (simp add: written_def it)
  with Cons.prems(5) g o(1) have r: "reader_gets env (map fst pairs) out t ?w2 = (val', stamp', w')"
    by (simp add: p get_line_def)
  have "counted (length pairs) (mem ?w2) (mem w') \<and> length val' = length out \<and>
     stdout_of (hist w') = stdout_of (hist ?w2) @ concat (map (get_line (mem ?w2)) pairs)"
  proof (rule Cons.IH[OF _ _ _ _ r])
    show "table_wf (mem ?w2)" using c1 by (simp only: counted_def)
    show "list_all plain_pair pairs" using Cons.prems(2) by simp
    show "list_all (holds_pair (mem ?w2)) pairs"
      unfolding counted_lines(2)[OF c1] using Cons.prems(3) by simp
    show "MAX_VAL_LEN \<le> length out" using Cons.prems(4) o(2) by simp
  qed
  with counted_trans[OF c1] counted_lines(1)[OF c1] o(2) m(2) p show ?case by simp
qed

text \<open>What one tick prints: the pairs, then the report on the header at that moment.\<close>

definition tick_text :: "region \<Rightarrow> (string \<times> string) list \<Rightarrow> nat \<times> CacheHeader \<Rightarrow> string" where
  "tick_text r pairs tick = NL @ ''--- Tick '' @ decimal (fst tick + 1) @ '' ---'' @ NL @
     concat (map (get_line r) pairs) @ concat (telemetry_lines (snd tick))"

text \<open>The counters a report may show after \<open>n\<close> more hits on the region \<open>r\<close>.\<close>

definition report_of :: "region \<Rightarrow> nat \<Rightarrow> CacheHeader \<Rightarrow> bool" where
  "report_of r n h \<longleftrightarrow> capacity h = capacity (hdr r) \<and> entry_count h = entry_count (hdr r) \<and>
     total_misses h = total_misses (hdr r) \<and> total_hits h = total_hits (hdr r) + of_nat n"

lemma counted_report: "counted n r r' \<Longrightarrow> report_of r n (hdr r')"
  by (simp add: counted_def report_of_def identity_def)

lemma report_shift: "counted m r r' \<Longrightarrow> report_of r' n h = report_of r (m + n) h"
  by (simp add: counted_def report_of_def identity_def ac_simps)

lemma telemetry_alone:
  assumes "alone env" "locks_ok env"
  shows "mem (cache_print_telemetry env Mapped_base w) = mem w"
    and "stdout_of (hist (cache_print_telemetry env Mapped_base w)) =
      stdout_of (hist w) @ concat (telemetry_lines (hdr (mem w)))"
  using telemetry_acquired[of env w] assms by (simp_all add: locks_ok_def)

lemma reader_ticks_print:
  assumes env: "alone env" "locks_ok env" and plain: "list_all plain_pair demo_pairs"
  shows "table_wf (mem w) \<Longrightarrow> list_all (holds_pair (mem w)) demo_pairs \<Longrightarrow> MAX_VAL_LEN \<le> length val \<Longrightarrow>
     \<exists>hs. length hs = length ticks \<and>
       (\<forall>i<length hs. report_of (mem w) (3 * (i + 1)) (hs ! i)) \<and>
       stdout_of (hist (reader_ticks env ticks val stamp w)) =
         stdout_of (hist w) @ concat (map (tick_text (mem w) demo_pairs) (zip ticks hs))"
proof (induction ticks arbitrary: val stamp w)
  case Nil
  then show ?case by simp
next
  case (Cons tick ticks)
  let ?w1 = "cout (NL @ ''--- Tick '' @ decimal (tick + 1) @ '' ---'' @ NL) w"
  obtain val2 stamp2 w2 where g: "reader_gets env (map fst demo_pairs) val stamp ?w1 = (val2, stamp2, w2)"
    by (metis prod_cases3)
  have three: "length demo_pairs = 3" by (simp add: demo_pairs_def)
  from reader_gets_hits[OF env _ plain _ Cons.prems(3) g] Cons.prems(1,2)
  have c: "counted 3 (mem w) (mem w2)" and len: "length val2 = length val"
    and out: "stdout_of (hist w2) = stdout_of (hist ?w1) @ concat (map (get_line (mem w)) demo_pairs)"
    by (simp_all add: three)
  let ?w3 = "sleep 2 (cache_print_telemetry env Mapped_base w2)"
  have m3: "mem ?w3 = mem w2" by (simp add: telemetry_alone[OF env])
  have "\<exists>hs. length hs = length ticks \<and>
       (\<forall>i<length hs. report_of (mem ?w3) (3 * (i + 1)) (hs ! i)) \<and>
       stdout_of (hist (reader_ticks env ticks val2 stamp2 ?w3)) =
         stdout_of (hist ?w3) @ concat (map (tick_text (mem ?w3) demo_pairs) (zip ticks hs))"
  proof (rule Cons.IH)
    show "table_wf (mem ?w3)" unfolding m3 using c by (simp add: counted_def)
    show "list_all (holds_pair (mem ?w3)) demo_pairs"
      unfolding m3 counted_lines(2)[OF c] by (rule Cons.prems)
    show "MAX_VAL_LEN \<le> length val2" using Cons.prems(3) len by simp
  qed
  then obtain hs where hs: "length hs = length ticks"
      "\<And>i. i < length hs \<Longrightarrow> report_of (mem w) (3 + 3 * (i + 1)) (hs ! i)"
      "stdout_of (hist (reader_ticks env ticks val2 stamp2 ?w3)) =
         stdout_of (hist ?w3) @ concat (map (tick_text (mem w) demo_pairs) (zip ticks hs))"
    unfolding m3 report_shift[OF c] tick_text_def counted_lines(1)[OF c] by blast
  have step: "reader_ticks env (tick # ticks) val stamp w = reader_ticks env ticks val2 stamp2 ?w3"
    by (simp only: reader_ticks.simps Let_def g split_conv)
  have first: "report_of (mem w) 3 (hdr (mem w2))" by (rule counted_report[OF c])
  show ?case
  proof (intro exI conjI)
    show "length (hdr (mem w2) # hs) = length (tick # ticks)" using hs(1) by simp
    show "\<forall>i<length (hdr (mem w2) # hs). report_of (mem w) (3 * (i + 1)) ((hdr (mem w2) # hs) ! i)"
    proof (intro allI impI)
      fix i assume "i < length (hdr (mem w2) # hs)"
      with first hs(2) show "report_of (mem w) (3 * (i + 1)) ((hdr (mem w2) # hs) ! i)"
        by (cases i) (simp_all add: algebra_simps)
    qed
    show "stdout_of (hist (reader_ticks env (tick # ticks) val stamp w)) =
         stdout_of (hist w) @ concat (map (tick_text (mem w) demo_pairs)
           (zip (tick # ticks) (hdr (mem w2) # hs)))"
      unfolding step hs(3) by (simp add: telemetry_alone[OF env] out tick_text_def)
  qed
qed

section \<open>Writer and reader together\<close>

lemma writer_main_fills:
  assumes env: "alone env" "locks_ok env"
    and o: "cache_open_shared env (Some empty_mapping) True None w = (True, Some m, w1)" "map_created m"
  shows "fst (writer_main env w) = 0"
    and "table_wf (mem (snd (writer_main env w)))"
    and "identity (mem (snd (writer_main env w)))
           = identity (fresh_region CACHE_SHARED_MEMORY_SIZE CACHE_DEFAULT_CAPACITY)"
    and "list_all (holds_pair (mem (snd (writer_main env w)))) demo_pairs"
    and "dom (abs_map (mem (snd (writer_main env w)))) = fst ` set demo_pairs"
proof -
  let ?r0 = "fresh_region CACHE_SHARED_MEMORY_SIZE CACHE_DEFAULT_CAPACITY"
  have m1: "mem w1 = ?r0" using o(2) by (cases rule: cache_open_shared_mapping[OF o(1)]) auto
  define msg where "msg = ''[Writer] '' @ (if map_created m then ''Initialized'' else ''Attached to'') @
    '' shared cache. Capacity: '' @ decimal (unat (capacity (hdr (mem w1)))) @ NL"
  obtain b w2 where l: "writer_loop env demo_pairs (cout msg w1) = (b, w2)" by fastforce
  obtain m' w3 where c: "cache_close_shared env (Some m) w2 = (m', w3)" by fastforce
  have "table_wf ?r0" "abs_map ?r0 = Map.empty"
    using fresh_region_wf[OF default_capacity_ok] fresh_region_abs[OF default_capacity_ok] by simp_all
  moreover have "3 \<le> cap ?r0" by (simp add: CACHE_DEFAULT_CAPACITY_def)
  ultimately have st: "b \<and> table_wf (mem w2) \<and> identity (mem w2) = identity ?r0 \<and>
     (\<forall>q\<in>set demo_pairs. holds_pair (mem w2) q) \<and>
     (\<forall>k. k \<notin> fst ` set demo_pairs \<longrightarrow> abs_map (mem w2) k = None)"
    using writer_loop_stores[OF env _ demo_pairs_plain _ l] m1 by (simp add: demo_pairs_def)
  have "writer_main env w = (0, cout (''[Writer] Done.'' @ NL) w3)"
    using st unfolding writer_main_def o Let_def split_conv option.sel msg_def[symmetric] l c by simp
  moreover have "mem (snd (cache_close_shared env (Some m) w2)) = mem w2"
    by (simp add: cache_close_shared_def unmap_region_def close_descriptor_def Let_def split: option.split)
  then have "mem w3 = mem w2" by (simp only: c snd_conv)
  ultimately have r: "fst (writer_main env w) = 0" "mem (snd (writer_main env w)) = mem w2" by simp_all
  show "fst (writer_main env w) = 0" by (rule r)
  show "table_wf (mem (snd (writer_main env w)))"
    "identity (mem (snd (writer_main env w))) = identity ?r0"
    "list_all (holds_pair (mem (snd (writer_main env w)))) demo_pairs"
    unfolding r(2) list_all_iff using st by simp_all
  show "dom (abs_map (mem (snd (writer_main env w)))) = fst ` set demo_pairs"
  proof (intro equalityI subsetI)
    fix k assume "k \<in> dom (abs_map (mem (snd (writer_main env w))))"
    with st show "k \<in> fst ` set demo_pairs" unfolding r(2) by fastforce
  next
    fix k assume "k \<in> fst ` set demo_pairs"
    then obtain v where "(k, v) \<in> set demo_pairs" by fastforce
    with st have "holds_pair (mem w2) (k, v)" by blast
    then show "k \<in> dom (abs_map (mem (snd (writer_main env w))))"
      unfolding r(2) by (auto simp: holds_pair_def)
  qed
qed

lemma reader_main_prints:
  assumes env: "alone env" "locks_ok env"
    and o: "cache_open_shared env (Some empty_mapping) False None w = (True, m, w1)"
    and r: "\<And>h b q. mmap_r env h = Some (b, q) \<Longrightarrow> q = r" "table_wf r" "list_all (holds_pair r) demo_pairs"
    and len: "MAX_VAL_LEN \<le> length buf"
  shows "fst (reader_main env buf w) = 0 \<and>
    (\<exists>hs. length hs = 5 \<and> (\<forall>i<5. report_of r (3 * (i + 1)) (hs ! i)) \<and>
       stdout_of (hist (snd (reader_main env buf w))) = stdout_of (hist w) @
         ''[Reader] Polling shared memory using the process-shared reader-writer lock...'' @ NL @
         concat (map (tick_text r demo_pairs) (zip [0..<5] hs)) @ ''[Reader] Done.'' @ NL)"
proof -
  have m1: "mem w1 = r"
  proof (cases rule: cache_open_shared_mapping[OF o])
    case (1 fd created base q)
    then have "\<not> created" by auto
    with 1(5) r(1) env(1) show ?thesis by auto
  qed
  have "stdout_of (hist (snd (snd (cache_open_shared env (Some empty_mapping) False None w)))) = stdout_of (hist w)"
    by (rule stdout_open)
  then have s1: "stdout_of (hist w1) = stdout_of (hist w)" by (simp only: o snd_conv)
  define msg where "msg = ''[Reader] Polling shared memory using the process-shared '' @
    ''reader-writer lock...'' @ NL"
  have "table_wf (mem (cout msg w1))" "list_all (holds_pair (mem (cout msg w1))) demo_pairs"
    using m1 r by simp_all
  from reader_ticks_print[OF env demo_pairs_plain(1) this len, of "[0..<5]" 0]
  obtain hs where hs: "length hs = 5" "\<forall>i<5. report_of r (3 * (i + 1)) (hs ! i)"
    "stdout_of (hist (reader_ticks env [0..<5] buf 0 (cout msg w1))) =
       stdout_of (hist w) @ msg @ concat (map (tick_text r demo_pairs) (zip [0..<5] hs))"
    unfolding mem_cout(1) m1 stdout_cout(1) s1 by (auto simp del: upt_rec_numeral)
  let ?w2 = "reader_ticks env [0..<5] buf 0 (cout msg w1)"
  obtain m' w3 where c: "cache_close_shared env m ?w2 = (m', w3)" by fastforce
  have "stdout_of (hist (snd (cache_close_shared env m ?w2))) = stdout_of (hist ?w2)"
    by (rule stdout_close)
  then have s3: "stdout_of (hist w3) = stdout_of (hist ?w2)" by (simp only: c snd_conv)
  have main: "reader_main env buf w = (0, cout (''[Reader] Done.'' @ NL) w3)"
    unfolding reader_main_def o Let_def split_conv msg_def[symmetric] c by simp
  have msg: "msg = ''[Reader] Polling shared memory using the process-shared reader-writer lock...'' @ NL"
    by (simp add: msg_def)
  show ?thesis
    unfolding main
  proof (intro conjI exI)
    show "length hs = 5" "\<forall>i<5. report_of r (3 * (i + 1)) (hs ! i)" by (fact hs)+
    show "stdout_of (hist (snd (0, cout (''[Reader] Done.'' @ NL) w3))) = stdout_of (hist w) @
         ''[Reader] Polling shared memory using the process-shared reader-writer lock...'' @ NL @
         concat (map (tick_text r demo_pairs) (zip [0..<5] hs)) @ ''[Reader] Done.'' @ NL"
      unfolding snd_conv stdout_cout(1) s3 hs(3) unfolding msg append_assoc ..
  qed simp
qed

end
