(* ===== verification/Reporting.thy ===== *)
theory Reporting
  imports Telemetry
begin

text \<open>
  The reporting helpers of \<open>bench/benchmark_reporting.cpp\<close>, \<open>percentile\<close> and \<open>cpu_model\<close>
  (\<open>csv_quote\<close> is in \<open>Text\<close>), and how the benchmark's stream prints a double.  The rank of a
  percentile is computed in double precision; for the three percentiles of the report it is the
  exact nearest rank.
\<close>

section \<open>Percentiles\<close>

definition percentile :: "rat list \<Rightarrow> rat \<Rightarrow> rat" where
  "percentile vals fraction =
     (if vals = [] then 0
      else let vals = sort vals;
               index = word_of_int \<lceil>round53 (fraction * round53 (of_nat (length vals)))\<rceil> - 1 :: u64
           in vals ! unat (min index (of_nat (length vals) - 1)))"

section \<open>The processor's name\<close>

text \<open>
  \<open>std::string::find\<close> for a character; \<open>substr\<close> throws \<open>std::out_of_range\<close> for a position beyond
  the end.
\<close>

fun find_char :: "char \<Rightarrow> string \<Rightarrow> nat option" where
  "find_char c [] = None"
| "find_char c (x # xs) = (if x = c then Some 0 else map_option Suc (find_char c xs))"

datatype cpp_exception = Out_of_range

definition substr :: "string \<Rightarrow> nat \<Rightarrow> cpp_exception + string" where
  "substr s pos = (if length s < pos then Inl Out_of_range else Inr (drop pos s))"

text \<open>The lines of \<open>/proc/cpuinfo\<close> are an argument, none if it cannot be read.\<close>

fun cpu_model :: "string list \<Rightarrow> cpp_exception + string" where
  "cpu_model [] = Inr ''unknown''"
| "cpu_model (line # lines) =
     (if take (length ''model name'') line = ''model name'' then
        (case find_char (CHR '':'') line of
           Some colon \<Rightarrow> substr line (colon + 2)
         | None \<Rightarrow> cpu_model lines)
      else cpu_model lines)"

text \<open>A line that ends at the colon makes \<open>cpu_model\<close> throw.\<close>

lemma cpu_model_throws: "cpu_model [''model name:''] = Inl Out_of_range"
  by (simp add: substr_def)

section \<open>Printing a double\<close>

text \<open>
  An \<open>ostream\<close> in its default state prints six significant digits without trailing zeros, in
  scientific notation if the decimal exponent is below \<open>-4\<close> or above 5.  Only durations and rates
  are printed, which are not negative.
\<close>

definition dec_exponent :: "rat \<Rightarrow> int" where
  "dec_exponent x =
     (let (n, d) = quotient_of x;
          k = int (length (decimal (nat n))) - int (length (decimal (nat d)))
      in if x < 10 powi k then k - 1 else k)"

definition with_fraction :: "string \<Rightarrow> string \<Rightarrow> string" where
  "with_fraction whole tail =
     (let tail = rev (dropWhile (\<lambda>c. c = CHR ''0'') (rev tail))
      in if tail = [] then whole else whole @ ''.'' @ tail)"

definition show_double :: "rat \<Rightarrow> string" where
  "show_double x =
     (if x \<le> 0 then ''0''
      else let e = dec_exponent x;
               m = nat (round_even (x / 10 powi (e - 5)));
               (m, e) = (if m = 1000000 then (100000, e + 1) else (m, e));
               ds = decimal m
      in if e < - 4 \<or> 5 < e then
           with_fraction (take 1 ds) (drop 1 ds) @ (if e < 0 then ''e-'' else ''e+'') @
             (if \<bar>e\<bar> < 10 then ''0'' else []) @ decimal (nat \<bar>e\<bar>)
         else if e < 0 then with_fraction ''0'' (replicate (nat (- e - 1)) (CHR ''0'') @ ds)
         else with_fraction (take (nat e + 1) ds) (drop (nat e + 1) ds))"

section \<open>The rank of a percentile\<close>

lemma round_even_eqI:
  assumes "\<bar>of_int k - y\<bar> < 1 / 2"
  shows "round_even y = k"
proof -
  have "\<bar>of_int (round_even y) - y\<bar> \<le> 1 / 2" using round_even_bounds[of y] by linarith
  with assms have "\<bar>of_int (round_even y - k) :: rat\<bar> < 1" unfolding of_int_diff by linarith
  then have "\<bar>round_even y - k\<bar> < 1" by (simp only: of_int_abs[symmetric] of_int_less_1_iff)
  then show ?thesis by linarith
qed

text \<open>A natural number within a relative distance of two to the \<open>-54\<close> is what is rounded to.\<close>

lemma round53_near:
  fixes N :: nat
  assumes N: "0 < N" "N < 2 ^ 50" and x: "\<bar>x - of_nat N\<bar> \<le> of_nat N / 2 ^ 54 * (9 / 10)"
  shows "round53 x = of_nat N"
proof -
  let ?N = "of_nat N :: rat"
  have N1: "1 \<le> ?N" using N(1) by simp
  have "?N / 2 ^ 54 * (9 / 10) \<le> ?N / 1000" by simp
  with x N1 have x0: "0 < x" and near: "?N \<le> x * (101 / 100)" "x \<le> ?N * (101 / 100)" by linarith+
  define e where "e = exponent x"
  have lo: "2 powi e \<le> x" and hi: "x < 2 powi (e + 1)" unfolding e_def by (rule exponent_bounds[OF x0])+
  have "x < 2 ^ 51"
  proof -
    have "?N < 2 ^ 50" using N(2) by (metis of_nat_less_iff of_nat_numeral of_nat_power)
    with near(2) show ?thesis by simp
  qed
  then have "(2 :: rat) powi e < 2 powi 51" using lo by (simp add: power_int_def)
  then have e: "e < 51" using power_int_increasing[of 51 e "2 :: rat"] by (metis linorder_not_less one_le_numeral)
  define k where "k = nat (52 - e)"
  have u: "(2 :: rat) powi (e - 52) = 1 / 2 ^ k"
    using e by (simp add: k_def power_int_def field_simps)
  have xk: "x * 2 ^ k < 2 ^ 53"
  proof -
    have "x * 2 ^ k < 2 powi (e + 1) * 2 ^ k" using hi by simp
    also have "\<dots> = 2 powi (e + 1) * 2 powi (52 - e)" using e by (simp add: k_def power_int_def)
    also have "\<dots> = 2 powi 53" by (simp flip: power_int_add)
    finally show ?thesis by (simp add: power_int_def)
  qed
  have "\<bar>of_int (int N * 2 ^ k) - x / (1 / 2 ^ k)\<bar> = \<bar>(x - ?N) * 2 ^ k\<bar>"
    by (simp add: left_diff_distrib abs_minus_commute)
  also have "\<dots> = \<bar>x - ?N\<bar> * 2 ^ k" by (simp add: abs_mult)
  also have "\<dots> \<le> ?N / 2 ^ 54 * (9 / 10) * 2 ^ k" using x by (intro mult_right_mono) auto
  also have "\<dots> \<le> x * (101 / 100) / 2 ^ 54 * (9 / 10) * 2 ^ k"
    using near(1) by (intro mult_right_mono divide_right_mono) auto
  also have "\<dots> = x * 2 ^ k * (909 / 1000 / 2 ^ 54)" by simp
  also have "\<dots> < 2 ^ 53 * (909 / 1000 / 2 ^ 54)" using xk by (intro mult_strict_right_mono) auto
  also have "\<dots> < 1 / 2" by simp
  finally have "round_even (x / (1 / 2 ^ k)) = int N * 2 ^ k" by (rule round_even_eqI)
  then show ?thesis using x0 by (simp add: round53_def Let_def e_def[symmetric] u)
qed

lemma round53_nat: "0 < N \<Longrightarrow> N < 2 ^ 50 \<Longrightarrow> round53 (of_nat N) = of_nat N"
  by (rule round53_near) simp_all

text \<open>The doubles of the three fractions the report uses.\<close>

definition percent_ok :: "nat \<Rightarrow> rat \<Rightarrow> bool" where
  "percent_ok p c \<longleftrightarrow> 0 < p \<and> p \<le> 100 \<and> \<bar>c - of_nat p / 100\<bar> \<le> of_nat p / 100 / 2 ^ 54 * (9 / 10)"

lemma round53_half_up:
  assumes "1 / 2 \<le> x" "x < 1" "\<bar>of_int k - x * 2 ^ 53\<bar> < 1 / 2"
  shows "round53 x = of_int k / 2 ^ 53"
proof -
  have "exponent x = - 1" using assms(1,2) by (intro exponentI) auto
  moreover have "round_even (x * 2 ^ 53) = k" by (rule round_even_eqI) (rule assms(3))
  ultimately show ?thesis using assms(1)
    by (simp add: round53_def Let_def power_int_def field_simps)
qed

lemma percents_ok:
  "percent_ok 50 (round53 (1 / 2))" "percent_ok 95 (round53 (95 / 100))" "percent_ok 99 (round53 (99 / 100))"
proof -
  have "round53 (1 / 2) = of_int 4503599627370496 / 2 ^ 53" by (rule round53_half_up) simp_all
  then show "percent_ok 50 (round53 (1 / 2))" by (simp add: percent_ok_def)
  have "round53 (95 / 100) = of_int 8556839292003942 / 2 ^ 53" by (rule round53_half_up) simp_all
  then show "percent_ok 95 (round53 (95 / 100))" by (simp add: percent_ok_def)
  have "round53 (99 / 100) = of_int 8917127262193582 / 2 ^ 53" by (rule round53_half_up) simp_all
  then show "percent_ok 99 (round53 (99 / 100))" by (simp add: percent_ok_def)
qed

text \<open>The nearest rank: the least number of values that are at least \<open>p\<close> percent of \<open>n\<close>.\<close>

definition rank :: "nat \<Rightarrow> nat \<Rightarrow> nat" where
  "rank p n = (p * n + 99) div 100"

lemma rank_bounds: "0 < p \<Longrightarrow> p \<le> 100 \<Longrightarrow> 0 < n \<Longrightarrow> 0 < rank p n \<and> rank p n \<le> n"
proof -
  assume a: "0 < p" "p \<le> 100" "0 < n"
  then have "1 \<le> p * n" "p * n \<le> 100 * n" by simp_all
  then show ?thesis unfolding rank_def by linarith
qed

text \<open>How far the product with the double is from \<open>p\<close> percent of \<open>n\<close>, before and after rounding.\<close>

lemma percent_product:
  assumes c: "percent_ok p c" and n: "0 < n" "n < 2 ^ 40"
  shows "0 < (of_nat (p * n) / 100 :: rat)" "p * n < 2 ^ 47"
    and "\<bar>c * of_nat n - of_nat (p * n) / 100\<bar> \<le> of_nat (p * n) / 100 / 2 ^ 54 * (9 / 10)"
proof -
  have p: "0 < p" "p \<le> 100" using c by (simp_all add: percent_ok_def)
  show "0 < (of_nat (p * n) / 100 :: rat)" using p n by simp
  have "p * n \<le> 100 * n" using p(2) by simp
  also have "\<dots> < 2 ^ 47" using n(2) by simp
  finally show "p * n < 2 ^ 47" .
  have "\<bar>c * of_nat n - of_nat (p * n) / 100\<bar> = \<bar>(c - of_nat p / 100) * of_nat n\<bar>"
    by (simp add: left_diff_distrib)
  also have "\<dots> = \<bar>c - of_nat p / 100\<bar> * of_nat n" by (simp add: abs_mult)
  also have "\<dots> \<le> of_nat p / 100 / 2 ^ 54 * (9 / 10) * of_nat n"
    using c by (intro mult_right_mono) (simp_all add: percent_ok_def)
  finally show "\<bar>c * of_nat n - of_nat (p * n) / 100\<bar> \<le> of_nat (p * n) / 100 / 2 ^ 54 * (9 / 10)" by simp
qed

lemma percent_rounded:
  assumes c: "percent_ok p c" and n: "0 < n" "n < 2 ^ 40"
  shows "\<bar>round53 (c * of_nat n) - of_nat (p * n) / 100\<bar> < 1 / 100"
proof -
  let ?z = "of_nat (p * n) / 100 :: rat"
  note z = percent_product(1)[OF assms] and pn = percent_product(2)[OF assms] and d = percent_product(3)[OF assms]
  have "(of_nat (p * n) :: rat) < of_nat (2 ^ 47)" using pn by (simp only: of_nat_less_iff)
  then have z47: "?z < 2 ^ 41" by simp
  have "y / 2 ^ 54 * (9 / 10) < 1 / 1000" if "y < 2 ^ 41" for y :: rat using that by simp
  from this[OF z47] d have d1: "\<bar>c * of_nat n - ?z\<bar> < 1 / 1000" by linarith
  moreover have "(2 :: rat) ^ 42 = 2 ^ 41 + 2 ^ 41" "(1 :: rat) < 2 ^ 41" by simp_all
  ultimately have x: "c * of_nat n < 2 ^ 42" using z z47 by linarith
  have "y / 2 ^ 54 * (9 / 10) < y" if "0 < y" for y :: rat using that by simp
  from this[OF z] d have "0 < c * of_nat n" by linarith
  then have "\<bar>round53 (c * of_nat n) - c * of_nat n\<bar> \<le> c * of_nat n / 2 ^ 53" by (rule round53_error)
  also have "\<dots> < 1 / 1000" using x by simp
  finally show ?thesis using d1 by linarith
qed

lemma rank_exact:
  assumes c: "percent_ok p c" and n: "0 < n" "n < 2 ^ 40"
  shows "\<lceil>round53 (c * of_nat n)\<rceil> = int (rank p n)"
proof (cases "100 dvd p * n")
  case True
  then obtain N where N: "p * n = 100 * N" by (auto elim: dvdE)
  then have "of_nat (p * n) / 100 = (of_nat N :: rat)" by simp
  moreover have "0 < N" "N < 2 ^ 50" using N percent_product(1,2)[OF assms] by (auto intro: gr0I)
  ultimately have "round53 (c * of_nat n) = of_nat N"
    using percent_product(3)[OF assms] by (intro round53_near) simp_all
  moreover have "rank p n = N" using N by (simp add: rank_def)
  ultimately show ?thesis by simp
next
  case False
  define q where "q = p * n div 100"
  define m where "m = p * n mod 100"
  have m: "0 < m" "m < 100" using False by (simp_all add: m_def dvd_eq_mod_eq_0)
  have e: "p * n = 100 * q + m" by (simp add: q_def m_def)
  then have r: "rank p n = q + 1" using m by (simp add: rank_def)
  have "of_nat q + 1 / 100 \<le> (of_nat (p * n) / 100 :: rat)" "of_nat (p * n) / 100 \<le> of_nat q + (99 / 100 :: rat)"
    using m by (simp_all add: e)
  with percent_rounded[OF assms]
  have "of_nat q < round53 (c * of_nat n)" "round53 (c * of_nat n) \<le> of_nat q + 1" by linarith+
  then have "\<lceil>round53 (c * of_nat n)\<rceil> = int q + 1" by (intro ceiling_unique) simp_all
  with r show ?thesis by simp
qed

lemma percentile_nearest_rank:
  assumes c: "percent_ok p c" and n: "vals \<noteq> []" "length vals < 2 ^ 40"
  shows "percentile vals c = sort vals ! (rank p (length vals) - 1)"
proof -
  let ?n = "length vals"
  have n0: "0 < ?n" using n(1) by simp
  have p: "0 < p" "p \<le> 100" using c by (simp_all add: percent_ok_def)
  note r = rank_bounds[OF p n0]
  have "round53 (of_nat ?n) = of_nat ?n" using n0 n(2) by (intro round53_nat) simp_all
  then have i: "word_of_int \<lceil>round53 (c * round53 (of_nat (length (sort vals))))\<rceil> - 1
      = (of_nat (rank p ?n - 1) :: u64)"
    using rank_exact[OF c n0 n(2)] r by (simp add: of_nat_diff)
  have small: "unat (of_nat k :: u64) = k" if "k < 2 ^ 40" for k
    using that by (simp add: unsigned_of_nat take_bit_nat_eq_self)
  have "unat (min (of_nat (rank p ?n - 1)) (of_nat ?n - 1 :: u64)) = rank p ?n - 1"
  proof -
    have "of_nat ?n - 1 = (of_nat (?n - 1) :: u64)" using n(1) by (cases vals) simp_all
    moreover have "unat (of_nat (rank p ?n - 1) :: u64) = rank p ?n - 1"
      using r[THEN conjunct2] n(2) by (intro small) linarith
    moreover have "unat (of_nat (?n - 1) :: u64) = ?n - 1"
      using n(2) by (intro small) simp
    ultimately show ?thesis using r by (simp add: min_def word_le_nat_alt diff_le_mono)
  qed
  then show ?thesis using n(1) i by (simp add: percentile_def Let_def)
qed

text \<open>The \<open>k\<close>-th of the sorted values, where \<open>k\<close> is the least number with \<open>p * n \<le> 100 * k\<close>.\<close>

lemma percentile_spec:
  assumes c: "percent_ok p c" and n: "vals \<noteq> []" "length vals < 2 ^ 40"
  shows "\<exists>k. percentile vals c = sort vals ! (k - 1) \<and> 0 < k \<and> k \<le> length vals \<and>
    p * length vals \<le> 100 * k \<and> 100 * (k - 1) < p * length vals"
proof (intro exI conjI)
  have b: "0 < rank p (length vals) \<and> rank p (length vals) \<le> length vals"
    using c n(1) by (intro rank_bounds) (simp_all add: percent_ok_def)
  show "percentile vals c = sort vals ! (rank p (length vals) - 1)" by (rule percentile_nearest_rank[OF assms])
  show "0 < rank p (length vals)" "rank p (length vals) \<le> length vals" using b by simp_all
  show "p * length vals \<le> 100 * rank p (length vals)" "100 * (rank p (length vals) - 1) < p * length vals"
    using b unfolding rank_def by linarith+
qed

end
