(* ===== verification/Samples.thy ===== *)
theory Samples
  imports Resources
begin

text \<open>
  Concrete states on which the witnesses evaluate the properties: a table of three slots, empty,
  with one entry, and full; and an environment in which every call of the operating system
  succeeds.
\<close>

section \<open>Tables\<close>

definition sample_region :: region where
  "sample_region = fresh_region 1136 3"

definition sample_world :: world where
  "sample_world = \<lparr>mem = sample_region, hist = []\<rparr>"

lemma sample_capacity: "valid_capacity 1136 3"
  by (simp add: valid_capacity_nat slot_room_def)

lemma sample_wf [simp]: "table_wf sample_region"
  unfolding sample_region_def by (rule fresh_region_wf[OF sample_capacity]) simp

lemma sample_abs [simp]: "abs_map sample_region = (\<lambda>k. None)"
  unfolding sample_region_def by (rule fresh_region_abs[OF sample_capacity]) simp

lemma sample_cap [simp]: "capacity (hdr sample_region) = 3"
  by (simp add: sample_region_def)

lemma sample_world_simps [simp]: "mem sample_world = sample_region" "hist sample_world = []"
  by (simp_all add: sample_world_def)

lemma key_fits_sample [simp]: "key_fits ''k''" "key_fits ''l''" "key_fits ''m''" "key_fits ''n''"
  by (simp_all add: key_fits_def strlen_def MAX_KEY_LEN_def)

lemma value_fits_sample [simp]: "value_fits ''v''" "value_fits ''u''"
  by (simp_all add: value_fits_def strlen_def MAX_VAL_LEN_def)

text \<open>A PUT on a table that is not full, by the only process, adds one binding.\<close>

lemma sole_put:
  assumes wf: "table_wf (mem w)" and k: "key_fits key" and v: "value_fits val"
    and room: "\<not> full_for (mem w) (cstr key)"
  shows "fst (cache_put_ttl (sole_env t) Mapped_base (Some key) (Some val) ttl w) \<and>
    table_wf (mem (snd (cache_put_ttl (sole_env t) Mapped_base (Some key) (Some val) ttl w))) \<and>
    abs_map (mem (snd (cache_put_ttl (sole_env t) Mapped_base (Some key) (Some val) ttl w)))
      = (abs_map (mem w))(cstr key \<mapsto> \<lparr>item_value = cstr val, item_time = t, item_ttl = ttl\<rparr>) \<and>
    capacity (hdr (mem (snd (cache_put_ttl (sole_env t) Mapped_base (Some key) (Some val) ttl w))))
      = capacity (hdr (mem w))"
proof -
  obtain ok w' where r: "cache_put_ttl (sole_env t) Mapped_base (Some key) (Some val) ttl w = (ok, w')"
    by fastforce
  have lock: "wrlock_rc (sole_env t) (hist w) = 0" by (simp add: sole_env_def)
  from wf have wf': "table_wf (acquired_write (sole_env t) w)" by simp
  show ?thesis
    using cache_put_ttl_spec[OF wf' k v lock r] room r
    by (auto simp: put_result_def room_made_def put_time_def)
qed

definition one_entry :: world where
  "one_entry = snd (cache_put_ttl (sole_env 100) Mapped_base (Some ''k'') (Some ''v'') 5 sample_world)"

definition two_entries :: world where
  "two_entries = snd (cache_put_ttl (sole_env 101) Mapped_base (Some ''l'') (Some ''u'') 0 one_entry)"

definition three_entries :: world where
  "three_entries = snd (cache_put_ttl (sole_env 102) Mapped_base (Some ''m'') (Some ''v'') 9 two_entries)"

lemma one_entry [simp]:
  "table_wf (mem one_entry)" "capacity (hdr (mem one_entry)) = 3"
  "abs_map (mem one_entry) = [''k'' \<mapsto> \<lparr>item_value = ''v'', item_time = 100, item_ttl = 5\<rparr>]"
  using sole_put[of sample_world "''k''" "''v''" 100 5]
  by (simp_all add: one_entry_def full_for_def)

lemma two_entries [simp]:
  "table_wf (mem two_entries)" "capacity (hdr (mem two_entries)) = 3"
  "abs_map (mem two_entries) =
     [''k'' \<mapsto> \<lparr>item_value = ''v'', item_time = 100, item_ttl = 5\<rparr>,
      ''l'' \<mapsto> \<lparr>item_value = ''u'', item_time = 101, item_ttl = 0\<rparr>]"
  using sole_put[of one_entry "''l''" "''u''" 101 0]
  by (simp_all add: two_entries_def full_for_def)

lemma three_entries [simp]:
  "table_wf (mem three_entries)" "capacity (hdr (mem three_entries)) = 3"
  "abs_map (mem three_entries) =
     [''k'' \<mapsto> \<lparr>item_value = ''v'', item_time = 100, item_ttl = 5\<rparr>,
      ''l'' \<mapsto> \<lparr>item_value = ''u'', item_time = 101, item_ttl = 0\<rparr>,
      ''m'' \<mapsto> \<lparr>item_value = ''v'', item_time = 102, item_ttl = 9\<rparr>]"
  using sole_put[of two_entries "''m''" "''v''" 102 9]
  by (simp_all add: three_entries_def full_for_def)

lemma three_entries_full: "full_for (mem three_entries) ''n''"
  by (simp add: full_for_def)

section \<open>An environment without failures\<close>

text \<open>
  Every call succeeds; the named object exists or not, has the given size, and is mapped at
  address 4096 with the given content.  The clock shows \<open>t\<close>, and there is no other process.
\<close>

definition sample_os :: "bool \<Rightarrow> int \<Rightarrow> region \<Rightarrow> u64 \<Rightarrow> os_env" where
  "sample_os present st_size r t =
     \<lparr>rdlock_rc = (\<lambda>h. 0), wrlock_rc = (\<lambda>h. 0), unlock_rc = (\<lambda>h. 0), time_now = (\<lambda>h. t),
      others = (\<lambda>h r. r), attr_init_rc = (\<lambda>h. 0), attr_setpshared_rc = (\<lambda>h. 0),
      rwlock_init_rc = (\<lambda>h. 0),
      shm_create_r = (\<lambda>h name. if present then (- 1, True) else (3, False)),
      shm_attach_r = (\<lambda>h name. if present then 3 else - 1), ftruncate_rc = (\<lambda>h. 0),
      fstat_r = (\<lambda>h. (0, st_size)), mmap_r = (\<lambda>h. Some (4096, r)), munmap_rc = (\<lambda>h. 0),
      close_rc = (\<lambda>h. 0), shm_unlink_r = (\<lambda>h name. if present then (0, False) else (- 1, True))\<rparr>"

lemma sample_os_simps [simp]:
  "rdlock_rc (sample_os b n r t) h = 0" "wrlock_rc (sample_os b n r t) h = 0"
  "unlock_rc (sample_os b n r t) h = 0" "time_now (sample_os b n r t) h = t"
  "others (sample_os b n r t) h r' = r'" "attr_init_rc (sample_os b n r t) h = 0"
  "attr_setpshared_rc (sample_os b n r t) h = 0" "rwlock_init_rc (sample_os b n r t) h = 0"
  "shm_create_r (sample_os b n r t) h nm = (if b then (- 1, True) else (3, False))"
  "shm_attach_r (sample_os b n r t) h nm = (if b then 3 else - 1)"
  "ftruncate_rc (sample_os b n r t) h = 0" "fstat_r (sample_os b n r t) h = (0, n)"
  "mmap_r (sample_os b n r t) h = Some (4096, r)" "munmap_rc (sample_os b n r t) h = 0"
  "close_rc (sample_os b n r t) h = 0"
  "shm_unlink_r (sample_os b n r t) h nm = (if b then (0, False) else (- 1, True))"
  by (simp_all add: sample_os_def)

lemma sample_os_alone [simp]:
  "alone (sample_os b n r t)" "locks_ok (sample_os b n r t)" "unlock_ok (sample_os b n r t)"
  "peers_ok (sample_os b n r t)"
  by (simp_all add: alone_def locks_ok_def unlock_ok_def peers_ok_def)

lemma sample_os_creates:
  "cache_open_shared (sample_os False n r t) (Some m) True None w =
     (True, Some \<lparr>map_fd = 3, map_base = Some 4096, map_size = CACHE_SHARED_MEMORY_SIZE,
                  map_created = True\<rparr>,
      snd (snd (cache_open_shared (sample_os False n r t) (Some m) True None w)))"
  using default_capacity_ok(1)
  by (simp add: cache_open_shared_def open_object_def size_object_def adopt_region_def
      cache_initialize_region_def cache_init_lock_def empty_mapping_def Let_def)

text \<open>A published region with one entry, and an environment in which it can be attached.\<close>

definition published_sample :: region where
  "published_sample = (mem one_entry)\<lparr>hdr := (hdr (mem one_entry))
     \<lparr>magic := CACHE_MAGIC, version := CACHE_VERSION\<rparr>\<rparr>"

lemma published_sample [simp]:
  "table_wf published_sample" "abs_map published_sample = abs_map (mem one_entry)"
  "capacity (hdr published_sample) = 3"
  using table_wf_hdr[of "mem one_entry" published_sample] by (simp_all add: published_sample_def)

lemma published_sample_valid:
  "cache_validate_layout (Some published_sample) CACHE_SHARED_MEMORY_SIZE"
  "entry_count (hdr published_sample) \<le> capacity (hdr published_sample)"
proof -
  have "data_offset (hdr published_sample) = 104"
    using layout_wf[OF published_sample(1)] by (simp add: layout_ok_def word_unat_eq_iff)
  moreover have "valid_capacity CACHE_SHARED_MEMORY_SIZE 3"
    by (simp add: valid_capacity_nat slot_room_def CACHE_SHARED_MEMORY_SIZE_def)
  ultimately show "cache_validate_layout (Some published_sample) CACHE_SHARED_MEMORY_SIZE"
    by (simp add: cache_validate_layout_def CACHE_SHARED_MEMORY_SIZE_def published_sample_def)
  show "entry_count (hdr published_sample) \<le> capacity (hdr published_sample)"
    using entry_count_card[OF published_sample(1)] by (simp add: word_le_nat_alt)
qed

lemma sample_os_attaches:
  assumes "cache_validate_layout (Some r) CACHE_SHARED_MEMORY_SIZE"
    and "entry_count (hdr r) \<le> capacity (hdr r)"
  shows "cache_open_shared (sample_os True 4194304 r t) (Some m) False None w =
     (True, Some \<lparr>map_fd = 3, map_base = Some 4096, map_size = CACHE_SHARED_MEMORY_SIZE,
                  map_created = False\<rparr>,
      snd (snd (cache_open_shared (sample_os True 4194304 r t) (Some m) False None w)))"
    and "mem (snd (snd (cache_open_shared (sample_os True 4194304 r t) (Some m) False None w))) = r"
proof -
  let ?v = "set_mem r (emit (Mmap 3 (Some 4096)) (emit (Fstat 3 0) (emit (Shm_attach SHM_NAME 3) w)))"
  have "validate_ready_header (sample_os True 4194304 r t) CACHE_SHARED_MEMORY_SIZE ?v =
      (True, unlock_cache (sample_os True 4194304 r t)
         \<lparr>mem = r, hist = Read_lock 0 # hist ?v\<rparr>)"
    using assms by (simp add: validate_ready_header_def lock_for_read_ok acquired_read_def)
  then have "cache_open_shared (sample_os True 4194304 r t) (Some m) False None w =
     (True, Some \<lparr>map_fd = 3, map_base = Some 4096, map_size = CACHE_SHARED_MEMORY_SIZE,
                  map_created = False\<rparr>,
      unlock_cache (sample_os True 4194304 r t) \<lparr>mem = r, hist = Read_lock 0 # hist ?v\<rparr>)"
    by (simp add: cache_open_shared_def open_object_def size_object_def adopt_region_def
        empty_mapping_def Let_def CACHE_SHARED_MEMORY_SIZE_def)
  then show "cache_open_shared (sample_os True 4194304 r t) (Some m) False None w =
     (True, Some \<lparr>map_fd = 3, map_base = Some 4096, map_size = CACHE_SHARED_MEMORY_SIZE,
                  map_created = False\<rparr>,
      snd (snd (cache_open_shared (sample_os True 4194304 r t) (Some m) False None w)))"
    and "mem (snd (snd (cache_open_shared (sample_os True 4194304 r t) (Some m) False None w))) = r"
    by simp_all
qed

end
