(* ===== verification/Socket.thy ===== *)
theory Socket
  imports Layout
begin

text \<open>
  The socket baseline of the benchmark, \<open>bench/benchmark_socket.cpp\<close>: \<open>transfer_all\<close> with its
  partial and interrupted transfers, the request and response messages as bytes on the wire, the
  server loop \<open>LocalSocketCache::serve\<close> over its \<open>std::map\<close>, and \<open>LocalSocketCache::request\<close>.
\<close>

section \<open>\<open>transfer_all\<close>\<close>

text \<open>
  What the operating system answers to one \<open>read\<close> or \<open>write\<close>: interrupted (\<open>-1\<close> with
  \<open>EINTR\<close>), failed (\<open>-1\<close> otherwise), or some bytes moved, at most as many as were asked for
  and, for a \<open>read\<close>, as many as are on the wire; zero bytes mean the end of the stream.  When the
  list of answers ends, the connection has ended.
\<close>

datatype io_result = Interrupted | Failed | Moved nat

fun transfer_loop ::
  "bool \<Rightarrow> nat \<Rightarrow> char list \<Rightarrow> char list \<Rightarrow> io_result list \<Rightarrow> bool \<times> char list \<times> char list" where
  "transfer_loop sending transferred data wire [] =
     (\<not> transferred < length data, data, wire)"
| "transfer_loop sending transferred data wire (res # script) =
     (if transferred < length data then
        (case res of
           Interrupted \<Rightarrow> transfer_loop sending transferred data wire script
         | Failed \<Rightarrow> (False, data, wire)
         | Moved n \<Rightarrow>
             (let m = min n (length data - transferred);
                  m = (if sending then m else min m (length wire))
              in if m = 0 then (False, data, wire)
                 else if sending then
                   transfer_loop sending (transferred + m) data
                     (wire @ take m (drop transferred data)) script
                 else transfer_loop sending (transferred + m)
                   (take transferred data @ take m wire @ drop (transferred + m) data)
                   (drop m wire) script))
      else (True, data, wire))"

text \<open>Send the bytes of a message, or fill a buffer of the given size.\<close>

definition transfer_all ::
  "bool \<Rightarrow> char list \<Rightarrow> char list \<Rightarrow> io_result list \<Rightarrow> bool \<times> char list \<times> char list" where
  "transfer_all sending data wire script = transfer_loop sending 0 data wire script"

text \<open>The answers that let \<open>size\<close> bytes through.\<close>

fun completes :: "nat \<Rightarrow> io_result list \<Rightarrow> bool" where
  "completes sz [] = (sz = 0)"
| "completes sz (res # script) =
     (sz = 0 \<or>
      (case res of Interrupted \<Rightarrow> completes sz script | Failed \<Rightarrow> False
       | Moved n \<Rightarrow> n \<noteq> 0 \<and> completes (sz - n) script))"

lemma completes_0 [simp]: "completes 0 script"
  by (cases script) simp_all

lemma transfer_loop_send:
  assumes "transfer_loop True t data wire script = (ok, data', wire')" "t \<le> length data"
  shows "data' = data \<and> (ok \<longleftrightarrow> completes (length data - t) script) \<and>
     (ok \<longrightarrow> wire' = wire @ drop t data)"
  using assms
proof (induction script arbitrary: t wire)
  case Nil
  then show ?case by auto
next
  case (Cons res script)
  show ?case
  proof (cases "t < length data")
    case False
    with Cons.prems show ?thesis by auto
  next
    case lt: True
    show ?thesis
    proof (cases res)
      case Interrupted
      with Cons.prems lt Cons.IH[of t wire] show ?thesis by auto
    next
      case Failed
      with Cons.prems lt show ?thesis by auto
    next
      case (Moved n)
      let ?m = "min n (length data - t)"
      show ?thesis
      proof (cases "?m = 0")
        case True
        with Cons.prems lt Moved show ?thesis by (auto simp: Let_def)
      next
        case False
        have d: "length data - (t + ?m) = length data - t - n" by simp
        have "wire @ take ?m (drop t data) @ drop (t + ?m) data = wire @ drop t data"
          by (metis add.commute append_take_drop_id drop_drop)
        with Cons.prems lt Moved False Cons.IH[of "t + ?m" "wire @ take ?m (drop t data)"]
        show ?thesis unfolding d by (auto simp: Let_def)
      qed
    qed
  qed
qed

lemma transfer_loop_receive:
  assumes "transfer_loop False t data wire script = (ok, data', wire')" "t \<le> length data"
    and "length data - t \<le> length wire"
  shows "length data' = length data \<and> (ok \<longleftrightarrow> completes (length data - t) script) \<and>
     (ok \<longrightarrow> data' = take t data @ take (length data - t) wire \<and>
             wire' = drop (length data - t) wire)"
  using assms
proof (induction script arbitrary: t data wire)
  case Nil
  then show ?case by auto
next
  case (Cons res script)
  show ?case
  proof (cases "t < length data")
    case False
    with Cons.prems show ?thesis by auto
  next
    case lt: True
    show ?thesis
    proof (cases res)
      case Interrupted
      with Cons.prems lt Cons.IH[of t data wire] show ?thesis by auto
    next
      case Failed
      with Cons.prems lt show ?thesis by auto
    next
      case (Moved n)
      let ?m = "min (min n (length data - t)) (length wire)"
      let ?d = "take t data @ take ?m wire @ drop (t + ?m) data"
      have m: "?m = min n (length data - t)" using Cons.prems(3) by simp
      show ?thesis
      proof (cases "?m = 0")
        case True
        with Cons.prems lt Moved m show ?thesis by (auto simp: Let_def)
      next
        case False
        have len: "length ?d = length data" using lt m Cons.prems(3) by simp
        have d: "length data - (t + ?m) = length data - t - n" using m by simp
        have tk: "take (t + ?m) ?d = take t data @ take ?m wire" using lt m Cons.prems(3) by simp
        have r: "length data - t = ?m + (length data - t - n)" using m by simp
        have tw: "take (length data - t) wire = take ?m wire @ take (length data - t - n) (drop ?m wire)"
          by (subst r) (simp only: take_add)
        have dw: "drop (length data - t) wire = drop (length data - t - n) (drop ?m wire)"
          by (subst r) (simp add: add.commute)
        have "transfer_loop False (t + ?m) ?d (drop ?m wire) script = (ok, data', wire')"
          using Cons.prems(1) lt Moved False by (simp add: Let_def)
        note ih = Cons.IH[OF this]
        have "?m \<le> length data - t" by simp
        then have p1: "t + ?m \<le> length ?d" unfolding len using lt by linarith
        have p2: "length ?d - (t + ?m) \<le> length (drop ?m wire)"
          unfolding len using Cons.prems(3) by simp
        have c: "completes (length data - t) (Moved n # script) = completes (length data - t - n) script"
          using lt False by simp
        from ih[OF p1 p2, unfolded len d tk] show ?thesis
          unfolding Moved c tw dw by (auto simp only: append_assoc)
      qed
    qed
  qed
qed

lemma transfer_all_send:
  assumes "completes (length data) script"
  shows "transfer_all True data wire script = (True, data, wire @ data)"
proof -
  obtain ok d w where r: "transfer_loop True 0 data wire script = (ok, d, w)" by (metis prod_cases3)
  from transfer_loop_send[OF r] assms r show ?thesis by (simp add: transfer_all_def)
qed

lemma transfer_all_receive:
  assumes "completes (length data) script" "length data \<le> length wire"
  shows "transfer_all False data wire script
           = (True, take (length data) wire, drop (length data) wire)"
proof -
  obtain ok d w where r: "transfer_loop False 0 data wire script = (ok, d, w)" by (metis prod_cases3)
  from transfer_loop_receive[OF r] assms r show ?thesis by (simp add: transfer_all_def)
qed

lemma transfer_all_fails:
  assumes "\<not> completes (length data) script" "sending \<or> length data \<le> length wire"
  shows "\<not> fst (transfer_all sending data wire script)"
proof -
  obtain ok d w where r: "transfer_loop sending 0 data wire script = (ok, d, w)"
    by (metis prod_cases3)
  show ?thesis
  proof (cases sending)
    case True
    with transfer_loop_send[of 0 data wire script ok d w] r assms show ?thesis
      by (simp add: transfer_all_def)
  next
    case False
    with transfer_loop_receive[of 0 data wire script ok d w] r assms show ?thesis
      by (simp add: transfer_all_def)
  qed
qed

section \<open>Messages\<close>

record Request =
  req_operation :: char
  req_key :: "char list"
  req_value :: "char list"

record Response =
  resp_status :: i32
  resp_value :: "char list"

text \<open>The bytes of the two structures; neither has padding, and an \<open>int32_t\<close> is little-endian.\<close>

definition Request_fields :: "(nat \<times> nat) list" where
  "Request_fields = [(1, 1), (MAX_KEY_LEN, 1), (MAX_VAL_LEN, 1)]"

definition Response_fields :: "(nat \<times> nat) list" where
  "Response_fields = [(4, 4), (MAX_VAL_LEN, 1)]"

definition sizeof_Request :: nat where "sizeof_Request = struct_size Request_fields"
definition sizeof_Response :: nat where "sizeof_Response = struct_size Response_fields"

lemma sizeof_messages [simp]: "sizeof_Request = 321" "sizeof_Response = 260"
  by (simp_all add: sizeof_Request_def sizeof_Response_def Request_fields_def Response_fields_def
      struct_size_def struct_align_def align_up_def MAX_KEY_LEN_def MAX_VAL_LEN_def)

definition request_bytes :: "Request \<Rightarrow> char list" where
  "request_bytes q = req_operation q # req_key q @ req_value q"

definition read_request :: "char list \<Rightarrow> Request" where
  "read_request b = \<lparr>req_operation = hd b, req_key = take MAX_KEY_LEN (tl b),
     req_value = drop MAX_KEY_LEN (tl b)\<rparr>"

definition status_bytes :: "i32 \<Rightarrow> char list" where
  "status_bytes w = map (\<lambda>i. char_of (unat w div 256 ^ i)) [0, 1, 2, 3]"

definition read_status :: "char list \<Rightarrow> i32" where
  "read_status b = of_nat (foldr (\<lambda>c n. of_char c + 256 * n) b 0)"

definition response_bytes :: "Response \<Rightarrow> char list" where
  "response_bytes p = status_bytes (resp_status p) @ resp_value p"

definition read_response :: "char list \<Rightarrow> Response" where
  "read_response b = \<lparr>resp_status = read_status (take 4 b), resp_value = drop 4 b\<rparr>"

lemma read_status_bytes [simp]: "read_status (status_bytes w) = w"
proof -
  let ?n = "unat w"
  have b: "?n < 4294967296" by (rule u32_bound)
  have d: "?n div 65536 = ?n div 256 div 256" "?n div 16777216 = ?n div 256 div 256 div 256"
    by (simp_all add: div_mult2_eq[symmetric])
  have "?n div 256 div 256 div 256 < 256" using b by (simp add: div_mult2_eq[symmetric])
  then have "?n mod 256 + 256 * (?n div 256 mod 256 + 256 * (?n div 256 div 256 mod 256
      + 256 * (?n div 256 div 256 div 256 mod 256))) = ?n" by simp
  then show ?thesis
    by (simp add: read_status_def status_bytes_def d of_char_of take_bit_eq_mod)
qed

lemma length_status_bytes [simp]: "length (status_bytes w) = 4"
  by (simp add: status_bytes_def)

lemma read_request_bytes [simp]:
  "length (req_key q) = MAX_KEY_LEN \<Longrightarrow> read_request (request_bytes q) = q"
  by (simp add: read_request_def request_bytes_def)

lemma read_response_bytes [simp]: "read_response (response_bytes p) = p"
  by (simp add: read_response_def response_bytes_def)

section \<open>The server\<close>

type_synonym store_map = "string \<Rightarrow> string option"

definition zero_response :: Response where
  "zero_response = \<lparr>resp_status = 0, resp_value = replicate MAX_VAL_LEN NUL\<rparr>"

text \<open>One turn of the loop of \<open>serve\<close>; \<open>None\<close> when the request ends the loop.\<close>

definition serve_one :: "Request \<Rightarrow> store_map \<Rightarrow> (Response \<times> store_map) option" where
  "serve_one q vals =
     (if req_operation q = CHR ''Q'' then None
      else let response = zero_response; key = cstr (req_key q)
      in if req_operation q = CHR ''G'' then
           (case vals key of None \<Rightarrow> Some (response, vals)
            | Some v \<Rightarrow> Some (response\<lparr>resp_status := 1,
                 resp_value := strncpy (resp_value response) v (MAX_VAL_LEN - 1)\<rparr>, vals))
         else if req_operation q = CHR ''P'' then
           Some (response\<lparr>resp_status := 1\<rparr>, vals(key \<mapsto> cstr (req_value q)))
         else if req_operation q = CHR ''U'' then
           (case vals key of None \<Rightarrow> Some (response, vals)
            | Some v \<Rightarrow> Some (response\<lparr>resp_status := 1\<rparr>, vals(key \<mapsto> cstr (req_value q))))
         else Some (response\<lparr>resp_status := - 1\<rparr>, vals))"

text \<open>
  The answers of the operating system to the two ends while one request is served: the client
  writes, the server reads, the server writes, the client reads.
\<close>

record link =
  client_write :: "io_result list"
  server_read :: "io_result list"
  server_write :: "io_result list"
  client_read :: "io_result list"

text \<open>
  One pass through the loop on the bytes the client sent: whether the loop goes on, the bytes the
  server puts on the wire, and its map.
\<close>

definition serve_pass :: "link \<Rightarrow> char list \<Rightarrow> store_map \<Rightarrow> bool \<times> char list \<times> store_map" where
  "serve_pass lk wire vals =
     (let (ok, buf, _) = transfer_all False (replicate sizeof_Request NUL) wire (server_read lk)
      in if \<not> ok then (False, [], vals)
      else case serve_one (read_request buf) vals of None \<Rightarrow> (False, [], vals)
        | Some (response, vals) \<Rightarrow>
            (let (ok, _, out) = transfer_all True (response_bytes response) [] (server_write lk)
             in (ok, out, vals)))"

definition serve_turn :: "link \<Rightarrow> char list \<Rightarrow> store_map \<Rightarrow> char list \<times> store_map" where
  "serve_turn lk wire vals = snd (serve_pass lk wire vals)"

text \<open>
  \<open>LocalSocketCache::serve\<close>: passes over what the client sends, one element for each time the
  server turns to read, until the loop is left; at the end of the list the connection has ended.
  The result is what was answered, in order, and the map.
\<close>

fun serve :: "(link \<times> char list) list \<Rightarrow> store_map \<Rightarrow> char list list \<times> store_map" where
  "serve [] vals = ([], vals)"
| "serve ((lk, wire) # turns) vals =
     (let (on, out, vals) = serve_pass lk wire vals
      in if on then (let (outs, vals) = serve turns vals in (out # outs, vals)) else ([out], vals))"

text \<open>The request structure the client builds; a value is optional.\<close>

definition make_request :: "char \<Rightarrow> char list \<Rightarrow> char list option \<Rightarrow> Request" where
  "make_request operation key val =
     \<lparr>req_operation = operation,
      req_key = strncpy (replicate MAX_KEY_LEN NUL) key (MAX_KEY_LEN - 1),
      req_value = (case val of None \<Rightarrow> replicate MAX_VAL_LEN NUL
        | Some v \<Rightarrow> strncpy (replicate MAX_VAL_LEN NUL) v (MAX_VAL_LEN - 1))\<rparr>"

definition request ::
  "link \<Rightarrow> char \<Rightarrow> char list \<Rightarrow> char list option \<Rightarrow> Response \<Rightarrow> store_map
     \<Rightarrow> bool \<times> Response \<times> store_map" where
  "request lk operation key val response vals =
     (let q = make_request operation key val;
          (sent, _, wire) = transfer_all True (request_bytes q) [] (client_write lk);
          (reply, vals) = serve_turn lk wire vals
      in if \<not> sent then (False, response, vals)
      else let (ok, buf, _) = transfer_all False (response_bytes response) reply (client_read lk)
      in (ok, read_response buf, vals))"

text \<open>A link on which every transfer completes.\<close>

definition link_ok :: "link \<Rightarrow> bool" where
  "link_ok lk \<longleftrightarrow> completes sizeof_Request (client_write lk) \<and>
     completes sizeof_Request (server_read lk) \<and> completes sizeof_Response (server_write lk) \<and>
     completes sizeof_Response (client_read lk)"

section \<open>A request over a working link\<close>

lemma strncpy_zero:
  assumes "0 < n"
  shows "cstr (strncpy (replicate n NUL) s (n - 1)) = take (n - 1) (cstr s)"
    and "length (strncpy (replicate n NUL) s (n - 1)) = n"
proof -
  have n: "replicate (n - (n - 1)) NUL = [NUL]" using assms by (cases n) simp_all
  have c: "strncpy (replicate n NUL) s (n - 1) = copy_terminated (replicate n NUL) s n"
    using assms n by (simp add: copy_terminated_def strncpy_def list_update_append)
  show "cstr (strncpy (replicate n NUL) s (n - 1)) = take (n - 1) (cstr s)"
    unfolding c using assms by (simp add: cstr_copy_terminated)
  show "length (strncpy (replicate n NUL) s (n - 1)) = n"
    unfolding c by simp
qed

lemma make_request_simps [simp]:
  "req_operation (make_request operation key val) = operation"
  "length (req_key (make_request operation key val)) = MAX_KEY_LEN"
  "length (req_value (make_request operation key val)) = MAX_VAL_LEN"
  "cstr (req_key (make_request operation key val)) = take (MAX_KEY_LEN - 1) (cstr key)"
  "cstr (req_value (make_request operation key (Some v))) = take (MAX_VAL_LEN - 1) (cstr v)"
  using strncpy_zero[of MAX_KEY_LEN key] strncpy_zero[of MAX_VAL_LEN]
  by (auto simp: make_request_def MAX_KEY_LEN_def MAX_VAL_LEN_def split: option.split)

lemma length_request_bytes: "length (request_bytes (make_request operation key val)) = sizeof_Request"
  using make_request_simps(2,3)[of operation key val]
  by (simp add: request_bytes_def MAX_KEY_LEN_def MAX_VAL_LEN_def)

lemma serve_one_response:
  assumes "serve_one q vals = Some (p, vals')"
  shows "length (resp_value p) = MAX_VAL_LEN"
  using assms strncpy_zero(2)[of MAX_VAL_LEN]
  by (auto simp: serve_one_def zero_response_def Let_def MAX_VAL_LEN_def split: if_splits option.splits)

lemma length_response_bytes:
  "length (resp_value p) = MAX_VAL_LEN \<Longrightarrow> length (response_bytes p) = sizeof_Response"
  by (simp add: response_bytes_def MAX_VAL_LEN_def)

lemma serve_turn_ok:
  assumes ok: "completes sizeof_Request (server_read lk)" "completes sizeof_Response (server_write lk)"
    and s: "serve_one (make_request operation key val) vals = Some (p, vals')"
  shows "serve_turn lk (request_bytes (make_request operation key val)) vals = (response_bytes p, vals')"
proof -
  let ?q = "make_request operation key val"
  have r: "transfer_all False (replicate sizeof_Request NUL) (request_bytes ?q) (server_read lk)
      = (True, request_bytes ?q, [])"
    using transfer_all_receive[of "replicate sizeof_Request NUL" "server_read lk" "request_bytes ?q"]
      ok(1) length_request_bytes[of operation key val] by simp
  have "completes (length (response_bytes p)) (server_write lk)"
    using length_response_bytes[OF serve_one_response[OF s]] ok(2) by simp
  from transfer_all_send[OF this, of "[]"] show ?thesis
    using s make_request_simps(2)[of operation key val] by (simp add: serve_turn_def serve_pass_def r[simplified])
qed

lemma request_ok:
  assumes lk: "link_ok lk" and len: "length (resp_value response) = MAX_VAL_LEN"
    and s: "serve_one (make_request operation key val) vals = Some (p, vals')"
  shows "request lk operation key val response vals = (True, p, vals')"
proof -
  let ?q = "make_request operation key val"
  have c: "transfer_all True (request_bytes ?q) [] (client_write lk) = (True, request_bytes ?q, request_bytes ?q)"
    using transfer_all_send[of "request_bytes ?q" "client_write lk" "[]"] lk
      length_request_bytes[of operation key val] by (simp add: link_ok_def)
  have t: "serve_turn lk (request_bytes ?q) vals = (response_bytes p, vals')"
    using lk s by (intro serve_turn_ok) (simp_all add: link_ok_def)
  have l: "length (response_bytes response) = 260" "length (response_bytes p) = 260"
    using length_response_bytes[OF len] length_response_bytes[OF serve_one_response[OF s]] by simp_all
  have "transfer_all False (response_bytes response) (response_bytes p) (client_read lk)
      = (True, response_bytes p, [])"
    using transfer_all_receive[of "response_bytes response" "client_read lk" "response_bytes p"] lk l
    by (simp add: link_ok_def)
  then show ?thesis by (simp add: request_def Let_def c t)
qed

text \<open>What the server does with the three operations of the benchmark.\<close>

lemma serve_request_G:
  "serve_one (make_request CHR ''G'' key val) vals =
     (case vals (take (MAX_KEY_LEN - 1) (cstr key)) of
        None \<Rightarrow> Some (zero_response, vals)
      | Some v \<Rightarrow> Some (zero_response\<lparr>resp_status := 1,
          resp_value := strncpy (resp_value zero_response) v (MAX_VAL_LEN - 1)\<rparr>, vals))"
  by (simp add: serve_one_def Let_def)

lemma serve_request_P:
  "serve_one (make_request CHR ''P'' key (Some v)) vals =
     Some (zero_response\<lparr>resp_status := 1\<rparr>,
       vals(take (MAX_KEY_LEN - 1) (cstr key) \<mapsto> take (MAX_VAL_LEN - 1) (cstr v)))"
  by (simp add: serve_one_def Let_def)

lemma serve_request_U:
  "serve_one (make_request CHR ''U'' key (Some v)) vals =
     (case vals (take (MAX_KEY_LEN - 1) (cstr key)) of
        None \<Rightarrow> Some (zero_response, vals)
      | Some v' \<Rightarrow> Some (zero_response\<lparr>resp_status := 1\<rparr>,
          vals(take (MAX_KEY_LEN - 1) (cstr key) \<mapsto> take (MAX_VAL_LEN - 1) (cstr v))))"
  by (simp add: serve_one_def Let_def split: option.split)

end
