(* ===== verification/Benchmark.thy ===== *)
theory Benchmark
  imports Complex_Main Samples Socket
begin

text \<open>
  The benchmark of \<open>bench/benchmark_measurement.cpp\<close>: the workloads, the check of each result,
  the warm-up and the measured operations, on the shared cache and on the socket baseline.  The
  two stores meet one contract, the locale \<open>bench_store\<close>, from which it follows that a
  benchmark run reports no failures.
\<close>

section \<open>Operations on the two stores\<close>

definition perform_shared ::
  "'a env_scheme \<Rightarrow> shm_ptr \<Rightarrow> char \<Rightarrow> char list \<Rightarrow> char list \<Rightarrow> char list \<Rightarrow> world
     \<Rightarrow> bool \<times> char list \<times> world" where
  "perform_shared env base operation key val out_value w =
     (if operation = CHR ''G'' then
        (let (found, out, _, w) = cache_get env base (Some key) (Some out_value) None w
         in (found, the out, w))
      else if operation = CHR ''P'' then
        (let (ok, w) = cache_put env base (Some key) (Some val) w in (ok, out_value, w))
      else (let (ok, w) = cache_update env base (Some key) (Some val) w in (ok, out_value, w)))"

text \<open>
  \<open>perform_socket\<close> returns whether the request completed, whether the operation succeeded (false
  as the callers initialise it, if the request did not complete), and the value buffer.
\<close>

definition perform_socket ::
  "link \<Rightarrow> char \<Rightarrow> char list \<Rightarrow> char list \<Rightarrow> char list \<Rightarrow> store_map
     \<Rightarrow> bool \<times> bool \<times> char list \<times> store_map" where
  "perform_socket lk operation key val out_value vals =
     (let (ok, response, vals) = request lk operation key (Some val) zero_response vals
      in if \<not> ok then (False, False, out_value, vals)
      else if sint (resp_status response) < 0 then (False, False, out_value, vals)
      else let succeeded = (resp_status response = 1)
      in (True, succeeded,
          (if operation = CHR ''G'' \<and> succeeded
           then strncpy out_value (resp_value response) (MAX_VAL_LEN - 1) else out_value), vals))"

text \<open>The operation and the key of the \<open>index\<close>-th step of a workload.\<close>

definition expected_result :: "string \<Rightarrow> u32 \<Rightarrow> char \<times> char list" where
  "expected_result workload index =
     (if workload = ''get_hit'' then (CHR ''G'', ''bench-hit'')
      else if workload = ''get_miss'' then (CHR ''G'', ''bench-miss'')
      else if workload = ''put_update'' then
        (if index mod 2 = 0 then CHR ''P'' else CHR ''U'',
         if index mod 2 = 0 then ''bench-put'' else ''bench-update'')
      else if index mod 4 = 0 then (CHR ''G'', ''bench-hit'')
      else if index mod 4 = 1 then (CHR ''G'', ''bench-miss'')
      else if index mod 4 = 2 then (CHR ''P'', ''bench-put'')
      else (CHR ''U'', ''bench-update''))"

definition prepare_shared :: "'a env_scheme \<Rightarrow> shm_ptr \<Rightarrow> char list \<Rightarrow> world \<Rightarrow> bool \<times> world" where
  "prepare_shared env base payload w =
     (let (ok, w) = cache_put env base (Some ''bench-hit'') (Some payload) w
      in if \<not> ok then (False, w)
         else cache_put env base (Some ''bench-update'') (Some payload) w)"

text \<open>The links of the two requests are arguments.\<close>

definition prepare_socket :: "link \<Rightarrow> link \<Rightarrow> char list \<Rightarrow> store_map \<Rightarrow> bool \<times> store_map" where
  "prepare_socket lk lk' payload vals =
     (let (ok, response, vals) = request lk CHR ''P'' ''bench-hit'' (Some payload) zero_response vals
      in if \<not> ok \<or> resp_status response \<noteq> 1 then (False, vals)
      else let (ok, response, vals) = request lk' CHR ''P'' ''bench-update'' (Some payload) response vals
      in (ok \<and> resp_status response = 1, vals))"

section \<open>The measurement\<close>

text \<open>
  The check of one result, as it stands in the warm-up and in the measured loop.
\<close>

definition result_correct ::
  "char \<Rightarrow> char list \<Rightarrow> char list \<Rightarrow> bool \<Rightarrow> bool \<Rightarrow> char list \<Rightarrow> bool" where
  "result_correct operation key payload completed succeeded out_value =
     (let should_succeed = (operation \<noteq> CHR ''G'' \<or> strcmp_eq key ''bench-hit'');
          correct = (completed \<and> succeeded = should_succeed)
      in if correct \<and> operation = CHR ''G'' \<and> should_succeed
         then strcmp_eq out_value payload else correct)"

type_synonym 's performer =
  "char \<Rightarrow> char list \<Rightarrow> char list \<Rightarrow> char list \<Rightarrow> 's \<Rightarrow> (bool \<times> bool \<times> char list) \<times> 's"

text \<open>One step of one worker.\<close>

definition attempt ::
  "'s performer \<Rightarrow> string \<Rightarrow> char list \<Rightarrow> nat \<times> nat \<Rightarrow> 's \<Rightarrow> bool \<times> 's" where
  "attempt perform workload payload step s =
     (let (worker, index) = step;
          (operation, key) = expected_result workload (of_nat index + of_nat worker);
          ((completed, succeeded, out), s) =
             perform operation key payload (replicate MAX_VAL_LEN NUL) s
      in (result_correct operation key payload completed succeeded out, s))"

text \<open>The warm-up stops at the first incorrect result.\<close>

fun warm_loop :: "(nat \<times> nat \<Rightarrow> 's \<Rightarrow> bool \<times> 's) \<Rightarrow> (nat \<times> nat) list \<Rightarrow> 's \<Rightarrow> bool \<times> 's" where
  "warm_loop att [] s = (True, s)"
| "warm_loop att (x # xs) s =
     (let (correct, s) = att x s in if correct then warm_loop att xs s else (False, s))"

definition warm_schedule :: "u32 \<Rightarrow> u32 \<Rightarrow> (nat \<times> nat) list" where
  "warm_schedule thread_count warmup =
     [(worker, index). worker \<leftarrow> [0..<unat thread_count], index \<leftarrow> [0..<unat warmup]]"

text \<open>
  The measured operations.  Every worker runs in a thread of its own and has its own latencies
  and its own failure count; \<open>schedule\<close> is the order in which the workers' operations take
  effect, and \<open>elapsed\<close> what the steady clock measures for each, in microseconds.
\<close>

fun measured_loop ::
  "(nat \<times> nat \<Rightarrow> 's \<Rightarrow> bool \<times> 's) \<Rightarrow> (nat \<times> nat \<Rightarrow> rat) \<Rightarrow> (nat \<times> nat) list
     \<Rightarrow> rat list list \<Rightarrow> u64 list \<Rightarrow> 's \<Rightarrow> rat list list \<times> u64 list \<times> 's" where
  "measured_loop att elapsed [] lat fails s = (lat, fails, s)"
| "measured_loop att elapsed (x # xs) lat fails s =
     (let (correct, s) = att x s;
          worker = fst x;
          lat = lat[worker := lat ! worker @ [elapsed x]];
          fails = (if correct then fails else fails[worker := fails ! worker + 1])
      in measured_loop att elapsed xs lat fails s)"

record Measurement =
  latency_us :: "rat list"
  failures :: u64
  operations :: u64
  seconds :: rat

definition new_measurement :: Measurement where
  "new_measurement = \<lparr>latency_us = [], failures = 0, operations = 0, seconds = 0\<rparr>"

text \<open>\<open>whole\<close> is what the steady clock measures for the whole run, in seconds.\<close>

definition run_measurement ::
  "(char list \<Rightarrow> 's \<Rightarrow> bool \<times> 's) \<Rightarrow> 's performer \<Rightarrow> string \<Rightarrow> char list \<Rightarrow> u32 \<Rightarrow> u32
     \<Rightarrow> (nat \<times> nat) list \<Rightarrow> (nat \<times> nat \<Rightarrow> rat) \<Rightarrow> rat \<Rightarrow> 's \<Rightarrow> Measurement \<times> 's" where
  "run_measurement prepare perform workload payload thread_count operations_per_thread
      schedule elapsed whole s =
     (let result = new_measurement;
          warmup = min 100 operations_per_thread;
          (ok, s) = prepare payload s
      in if \<not> ok then (result\<lparr>failures := 1\<rparr>, s)
      else let (ok, s) = warm_loop (attempt perform workload payload)
                           (warm_schedule thread_count warmup) s
      in if \<not> ok then (result\<lparr>failures := 1\<rparr>, s)
      else let (lat, fails, s) = measured_loop (attempt perform workload payload) elapsed schedule
                 (replicate (unat thread_count) []) (replicate (unat thread_count) 0) s
      in (result\<lparr>seconds := whole,
                 operations := ucast thread_count * ucast operations_per_thread,
                 failures := sum_list fails, latency_us := concat lat\<rparr>, s))"

text \<open>What the operations of a store keep, a run keeps.\<close>

lemma attempt_keeps:
  assumes "\<And>op k v out s. P s \<Longrightarrow> P (snd (perform op k v out s))" "P s"
  shows "P (snd (attempt perform workload payload step s))"
  using assms by (simp add: attempt_def split_beta)

lemma warm_loop_keeps:
  "(\<And>x s. P s \<Longrightarrow> P (snd (att x s))) \<Longrightarrow> P s \<Longrightarrow> P (snd (warm_loop att xs s))"
  by (induction xs arbitrary: s) (auto simp: split_beta)

lemma measured_loop_keeps:
  "(\<And>x s. P s \<Longrightarrow> P (snd (att x s))) \<Longrightarrow> P s \<Longrightarrow>
   P (snd (snd (measured_loop att elapsed xs lat fails s)))"
  by (induction xs arbitrary: lat fails s) (auto simp: split_beta Let_def)

lemma run_measurement_keeps:
  assumes prep: "\<And>v s. P s \<Longrightarrow> P (snd (prepare v s))"
    and perf: "\<And>op k v out s. P s \<Longrightarrow> P (snd (perform op k v out s))" and s: "P s"
  shows "P (snd (run_measurement prepare perform workload payload tc n schedule elapsed whole s))"
proof -
  note att = attempt_keeps[of P perform, OF perf]
  note keeps = prep[OF s] warm_loop_keeps[of P "attempt perform workload payload", OF att]
    measured_loop_keeps[of P "attempt perform workload payload", OF att]
  show ?thesis using keeps by (simp add: run_measurement_def split_beta Let_def)
qed

text \<open>The latencies of the workers after a schedule.\<close>

fun worker_latencies ::
  "(nat \<times> nat \<Rightarrow> rat) \<Rightarrow> (nat \<times> nat) list \<Rightarrow> rat list list \<Rightarrow> rat list list" where
  "worker_latencies elapsed [] lat = lat"
| "worker_latencies elapsed (x # xs) lat =
     worker_latencies elapsed xs (lat[fst x := lat ! fst x @ [elapsed x]])"

lemma length_concat_update:
  "i < length xss \<Longrightarrow> length (concat (xss[i := xss ! i @ [y]])) = Suc (length (concat xss))"
  by (induction xss arbitrary: i) (auto split: nat.split)

lemma length_worker_latencies:
  "\<forall>x\<in>set schedule. fst x < length lat \<Longrightarrow>
   length (concat (worker_latencies elapsed schedule lat)) = length (concat lat) + length schedule"
  by (induction schedule arbitrary: lat) (simp_all add: length_concat_update)

section \<open>The contract of a store\<close>

definition bench_names :: "string set" where
  "bench_names = {''bench-hit'', ''bench-put'', ''bench-update''}"

locale bench_store =
  fixes ok :: "'s \<Rightarrow> bool"
    and look :: "'s \<Rightarrow> string \<Rightarrow> string option"
    and prepare :: "char list \<Rightarrow> 's \<Rightarrow> bool \<times> 's"
    and perform :: "'s performer"
  assumes miss_law: "ok s \<Longrightarrow> look s ''bench-miss'' = None"
    and prepare_law: "ok s \<Longrightarrow> value_fits v \<Longrightarrow> prepare v s = (b, s') \<Longrightarrow>
      b \<and> ok s' \<and> look s' = (look s)(''bench-hit'' \<mapsto> cstr v, ''bench-update'' \<mapsto> cstr v)"
    and get_law: "ok s \<Longrightarrow> k \<in> insert ''bench-miss'' bench_names \<Longrightarrow>
      perform CHR ''G'' k v (replicate MAX_VAL_LEN NUL) s = ((c, b, out), s') \<Longrightarrow>
      c \<and> (b \<longleftrightarrow> look s k \<noteq> None) \<and> (b \<longrightarrow> look s k = Some (cstr out)) \<and> ok s' \<and> look s' = look s"
    and put_law: "ok s \<Longrightarrow> k \<in> bench_names \<Longrightarrow> value_fits v \<Longrightarrow>
      perform CHR ''P'' k v out0 s = ((c, b, out), s') \<Longrightarrow>
      c \<and> b \<and> ok s' \<and> look s' = (look s)(k \<mapsto> cstr v)"
    and update_law: "ok s \<Longrightarrow> k \<in> bench_names \<Longrightarrow> value_fits v \<Longrightarrow>
      perform CHR ''U'' k v out0 s = ((c, b, out), s') \<Longrightarrow>
      c \<and> (b \<longleftrightarrow> look s k \<noteq> None) \<and> ok s' \<and>
      look s' = (if look s k = None then look s else (look s)(k \<mapsto> cstr v))"
begin

text \<open>What the workloads rely on, from the preparation on.\<close>

definition prepared :: "char list \<Rightarrow> 's \<Rightarrow> bool" where
  "prepared payload s \<longleftrightarrow>
     ok s \<and> look s ''bench-hit'' = Some (cstr payload) \<and> look s ''bench-update'' \<noteq> None"

lemma attempt_correct:
  assumes p: "prepared payload s" and v: "value_fits payload"
    and a: "attempt perform workload payload step s = (correct, s')"
  shows "correct \<and> prepared payload s'"
proof -
  obtain operation key where e:
    "expected_result workload (of_nat (snd step) + of_nat (fst step)) = (operation, key)" by fastforce
  obtain c b out s1 where r:
    "perform operation key payload (replicate MAX_VAL_LEN NUL) s = ((c, b, out), s1)"
    by (metis surj_pair)
  from a e r have res: "correct = result_correct operation key payload c b out" "s' = s1"
    by (simp_all add: attempt_def split_beta)
  from p have ok: "ok s" and hit: "look s ''bench-hit'' = Some (cstr payload)"
    and upd: "look s ''bench-update'' \<noteq> None" by (simp_all add: prepared_def)
  from e have "(operation, key) \<in> {(CHR ''G'', ''bench-hit''), (CHR ''G'', ''bench-miss''),
      (CHR ''P'', ''bench-put''), (CHR ''U'', ''bench-update'')}"
    by (auto simp: expected_result_def split: if_splits)
  then consider (hit) "operation = CHR ''G''" "key = ''bench-hit''"
    | (miss) "operation = CHR ''G''" "key = ''bench-miss''"
    | (put) "operation = CHR ''P''" "key = ''bench-put''"
    | (update) "operation = CHR ''U''" "key = ''bench-update''" by auto
  then show ?thesis
  proof cases
    case hit': hit
    with get_law[OF ok, of key payload c b out s1] r hit upd res show ?thesis
      by (auto simp: bench_names_def prepared_def result_correct_def strcmp_eq_def)
  next
    case miss
    with get_law[OF ok, of key payload c b out s1] r hit upd res miss_law[OF ok] show ?thesis
      by (auto simp: prepared_def result_correct_def strcmp_eq_def)
  next
    case put
    with put_law[OF ok _ v, of key "replicate MAX_VAL_LEN NUL" c b out s1] r hit upd res show ?thesis
      by (auto simp: bench_names_def prepared_def result_correct_def)
  next
    case update
    with update_law[OF ok _ v, of key "replicate MAX_VAL_LEN NUL" c b out s1] r hit upd res show ?thesis
      by (auto simp: bench_names_def prepared_def result_correct_def)
  qed
qed

lemma warm_loop_correct:
  "prepared payload s \<Longrightarrow> value_fits payload \<Longrightarrow>
   warm_loop (attempt perform workload payload) xs s = (b, s') \<Longrightarrow> b \<and> prepared payload s'"
proof (induction xs arbitrary: s)
  case Nil
  then show ?case by simp
next
  case (Cons x xs)
  obtain c s1 where a: "attempt perform workload payload x s = (c, s1)" by fastforce
  from attempt_correct[OF Cons.prems(1,2) a] have c: c and p: "prepared payload s1" by auto
  from Cons.IH[OF p] Cons.prems a c show ?case by simp
qed

lemma measured_loop_correct:
  "prepared payload s \<Longrightarrow> value_fits payload \<Longrightarrow>
   measured_loop (attempt perform workload payload) elapsed xs lat fails s = (lat', fails', s') \<Longrightarrow>
   fails' = fails \<and> lat' = worker_latencies elapsed xs lat \<and> prepared payload s'"
proof (induction xs arbitrary: lat s)
  case Nil
  then show ?case by simp
next
  case (Cons x xs)
  obtain c s1 where a: "attempt perform workload payload x s = (c, s1)" by fastforce
  from attempt_correct[OF Cons.prems(1,2) a] have c: c and p: "prepared payload s1" by auto
  from Cons.IH[OF p] Cons.prems a c show ?case by (simp add: Let_def)
qed

lemma run_measurement_correct:
  assumes "ok s" "value_fits payload"
  shows "case run_measurement prepare perform workload payload tc n schedule elapsed whole s of (m, s') \<Rightarrow>
    failures m = 0 \<and> operations m = ucast tc * ucast n \<and> seconds m = whole \<and>
    latency_us m = concat (worker_latencies elapsed schedule (replicate (unat tc) [])) \<and> ok s'"
proof -
  obtain b s1 where p: "prepare payload s = (b, s1)" by fastforce
  from prepare_law[OF assms p] have b: b and s1: "prepared payload s1"
    by (auto simp: prepared_def)
  obtain b2 s2 where w: "warm_loop (attempt perform workload payload)
      (warm_schedule tc (min 100 n)) s1 = (b2, s2)" by fastforce
  from warm_loop_correct[OF s1 assms(2) w] have b2: b2 and s2: "prepared payload s2" by auto
  obtain lat fails s3 where m: "measured_loop (attempt perform workload payload) elapsed schedule
      (replicate (unat tc) []) (replicate (unat tc) 0) s2 = (lat, fails, s3)" by (metis prod_cases3)
  from measured_loop_correct[OF s2 assms(2) m]
  have "sum_list fails = 0" "lat = worker_latencies elapsed schedule (replicate (unat tc) [])" "ok s3"
    by (auto simp: prepared_def sum_list_replicate)
  with p b w b2 m show ?thesis by (simp add: run_measurement_def new_measurement_def)
qed

end

section \<open>The shared cache as a store\<close>

text \<open>
  The state is the environment with the world, so that the contract holds in every environment
  without other processes and with a working lock.  The cache holds only the benchmark's keys
  and has room for all of them; nothing in it expires.
\<close>

definition shared_ok :: "'a env_scheme \<times> world \<Rightarrow> bool" where
  "shared_ok s \<longleftrightarrow>
     (case s of (env, w) \<Rightarrow>
        alone env \<and> locks_ok env \<and> table_wf (mem w) \<and> 3 \<le> cap (mem w) \<and>
        dom (abs_map (mem w)) \<subseteq> bench_names \<and>
        (\<forall>k it. abs_map (mem w) k = Some it \<longrightarrow> item_ttl it = 0))"

definition shared_look :: "'a env_scheme \<times> world \<Rightarrow> string \<Rightarrow> string option" where
  "shared_look s k = map_option item_value (abs_map (mem (snd s)) k)"

definition shared_prepare :: "char list \<Rightarrow> 'a env_scheme \<times> world \<Rightarrow> bool \<times> 'a env_scheme \<times> world" where
  "shared_prepare payload s =
     (case s of (env, w) \<Rightarrow>
        let (ok, w) = prepare_shared env Mapped_base payload w in (ok, env, w))"

definition shared_perform :: "('a env_scheme \<times> world) performer" where
  "shared_perform operation key val out_value s =
     (case s of (env, w) \<Rightarrow>
        let (ok, out, w) = perform_shared env Mapped_base operation key val out_value w
        in ((True, ok, out), (env, w)))"

lemma bench_names_fit:
  "k \<in> insert ''bench-miss'' bench_names \<Longrightarrow> key_fits k \<and> cstr k = k"
  by (auto simp: bench_names_def key_fits_def strlen_def MAX_KEY_LEN_def)

lemma bench_names_finite: "finite bench_names" "card bench_names = 3"
  by (simp_all add: bench_names_def)

lemma shared_not_full:
  assumes "shared_ok (env, w)" "k \<in> bench_names"
  shows "\<not> full_for (mem w) k"
proof
  assume f: "full_for (mem w) k"
  from assms have d: "dom (abs_map (mem w)) \<subseteq> bench_names" and c: "3 \<le> cap (mem w)"
    by (simp_all add: shared_ok_def)
  from f have "k \<notin> dom (abs_map (mem w))" and card: "card (dom (abs_map (mem w))) = cap (mem w)"
    by (auto simp: full_for_def)
  with d assms(2) have "dom (abs_map (mem w)) \<subset> bench_names" by blast
  then have "card (dom (abs_map (mem w))) < 3"
    using psubset_card_mono[OF bench_names_finite(1)] bench_names_finite(2) by metis
  with card c show False by simp
qed

text \<open>A PUT of one of the benchmark's keys.\<close>

lemma shared_put:
  assumes ok: "shared_ok (env, w)" and k: "k \<in> bench_names" and v: "value_fits v"
    and put: "cache_put env Mapped_base (Some k) (Some v) w = (b, w')"
  shows "b \<and> shared_ok (env, w') \<and>
    shared_look (env, w') = (shared_look (env, w))(k \<mapsto> cstr v)"
proof -
  from ok have wf: "table_wf (acquired_write env w)" and lock: "wrlock_rc env (hist w) = 0"
    and a: "acquired_write env w = mem w"
    by (simp_all add: shared_ok_def locks_ok_def)
  have kf: "key_fits k" "cstr k = k" using bench_names_fit[of k] k by auto
  from cache_put_ttl_spec[OF wf kf(1) v lock put[unfolded cache_put_def]]
  have b: b and r: "put_result env k v 0 w w'" by auto
  from r shared_not_full[OF ok k] have
    m: "abs_map (mem w') = (abs_map (mem w))(k \<mapsto>
         \<lparr>item_value = cstr v, item_time = put_time env k w, item_ttl = 0\<rparr>)"
    and wf': "table_wf (mem w')" and c: "capacity (hdr (mem w')) = capacity (hdr (mem w))"
    by (auto simp: put_result_def room_made_def a kf(2))
  from ok k m wf' c have "shared_ok (env, w')" by (auto simp: shared_ok_def)
  moreover have "shared_look (env, w') = (shared_look (env, w))(k \<mapsto> cstr v)"
    by (auto simp: shared_look_def m fun_eq_iff)
  ultimately show ?thesis using b by blast
qed

lemma shared_prepare_law:
  assumes ok: "shared_ok s" and v: "value_fits v" and p: "shared_prepare v s = (b, s')"
  shows "b \<and> shared_ok s' \<and>
    shared_look s' = (shared_look s)(''bench-hit'' \<mapsto> cstr v, ''bench-update'' \<mapsto> cstr v)"
proof -
  obtain env w where s: "s = (env, w)" by fastforce
  obtain b1 w1 where p1: "cache_put env Mapped_base (Some ''bench-hit'') (Some v) w = (b1, w1)"
    by fastforce
  have n: "''bench-hit'' \<in> bench_names" "''bench-update'' \<in> bench_names"
    by (simp_all add: bench_names_def)
  from shared_put[OF ok[unfolded s] n(1) v p1] have 1: b1 "shared_ok (env, w1)"
    "shared_look (env, w1) = (shared_look (env, w))(''bench-hit'' \<mapsto> cstr v)" by auto
  obtain b2 w2 where p2: "cache_put env Mapped_base (Some ''bench-update'') (Some v) w1 = (b2, w2)"
    by fastforce
  from shared_put[OF 1(2) n(2) v p2] have 2: b2 "shared_ok (env, w2)"
    "shared_look (env, w2) = (shared_look (env, w1))(''bench-update'' \<mapsto> cstr v)" by auto
  from p have "b = b2" "s' = (env, w2)"
    using s p1 p2 1(1) by (auto simp: shared_prepare_def prepare_shared_def)
  with 1 2 s show ?thesis by simp
qed

lemma shared_counted:
  assumes "shared_ok (env, w)" "mem w' = count_get hit c (mem w)"
  shows "shared_ok (env, w')" "shared_look (env, w') = shared_look (env, w)"
  using assms by (auto simp: shared_ok_def shared_look_def wf_count_get fun_eq_iff)

lemma shared_get_law:
  assumes ok: "shared_ok s" and k: "k \<in> insert ''bench-miss'' bench_names"
    and g: "shared_perform CHR ''G'' k v (replicate MAX_VAL_LEN NUL) s = ((c, b, out), s')"
  shows "c \<and> (b \<longleftrightarrow> shared_look s k \<noteq> None) \<and> (b \<longrightarrow> shared_look s k = Some (cstr out)) \<and>
    shared_ok s' \<and> shared_look s' = shared_look s"
proof -
  obtain env w where s: "s = (env, w)" by fastforce
  let ?z = "replicate MAX_VAL_LEN NUL"
  from ok s have al: "alone env" and wl: "\<And>h. wrlock_rc env h = 0"
    and wf: "table_wf (acquired_read env w)" and lock: "rdlock_rc env (hist w) = 0"
    and a: "acquired_read env w = mem w"
    by (simp_all add: shared_ok_def locks_ok_def)
  have kf: "key_fits k" "cstr k = k" using bench_names_fit[OF k] by auto
  note metrics = mem_add_get_metrics wl acquired_alone[OF al]
  have perf: "(case cache_get env Mapped_base (Some k) (Some ?z) None w of
       (fnd, res, _, v) \<Rightarrow> ((True, fnd, the res), (env, v))) = ((c, b, out), s')"
    using g s by (simp add: shared_perform_def perform_shared_def split_beta)
  show ?thesis
  proof (cases "abs_map (mem w) k")
    case None
    then have "abs_map (acquired_read env w) (cstr k) = None" by (simp add: a kf)
    from cache_get_absent[OF wf kf(1) lock this, of ?z None] obtain u where
      u: "cache_get env Mapped_base (Some k) (Some ?z) None w =
        (False, Some ?z, None, snd (add_get_metrics env False (extra (acquired_read env w) (cstr k)) u))"
        "mem u = acquired_read env w" by blast
    let ?w = "snd (add_get_metrics env False (extra (acquired_read env w) (cstr k)) u)"
    have "mem ?w = count_get False (extra (acquired_read env w) (cstr k)) (mem w)"
      using u(2) by (simp add: metrics a)
    from shared_counted[OF ok[unfolded s] this] perf u(1) None s show ?thesis
      by (auto simp: shared_look_def)
  next
    case (Some it)
    then have it: "abs_map (acquired_read env w) (cstr k) = Some it" by (simp add: a kf)
    have ne: "\<not> item_expired it (get_time env w)"
      using ok s Some by (auto simp: shared_ok_def item_expired_def)
    obtain out' u where
      u: "cache_get env Mapped_base (Some k) (Some ?z) None w =
        (True, Some out', None, snd (add_get_metrics env True (extra (acquired_read env w) (cstr k)) u))"
        "mem u = acquired_read env w" and o: "copied_out ?z (item_value it) out'"
      by (rule cache_get_hit[OF wf kf(1) lock it ne, of ?z None]) (simp add: that)
    let ?w = "snd (add_get_metrics env True (extra (acquired_read env w) (cstr k)) u)"
    have "mem ?w = count_get True (extra (acquired_read env w) (cstr k)) (mem w)"
      using u(2) by (simp add: metrics a)
    from shared_counted[OF ok[unfolded s] this] perf u(1) Some s o show ?thesis
      by (auto simp: shared_look_def copied_out_def)
  qed
qed

lemma shared_put_law:
  assumes "shared_ok s" "k \<in> bench_names" "value_fits v"
    and p: "shared_perform CHR ''P'' k v out0 s = ((c, b, out), s')"
  shows "c \<and> b \<and> shared_ok s' \<and> shared_look s' = (shared_look s)(k \<mapsto> cstr v)"
proof -
  obtain env w where s: "s = (env, w)" by fastforce
  obtain b' w' where r: "cache_put env Mapped_base (Some k) (Some v) w = (b', w')" by fastforce
  with p s have "c" "b = b'" "s' = (env, w')"
    by (simp_all add: shared_perform_def perform_shared_def)
  with shared_put[OF assms(1)[unfolded s] assms(2,3) r] s show ?thesis by simp
qed

lemma shared_update_law:
  assumes ok: "shared_ok s" and k: "k \<in> bench_names" and v: "value_fits v"
    and p: "shared_perform CHR ''U'' k v out0 s = ((c, b, out), s')"
  shows "c \<and> (b \<longleftrightarrow> shared_look s k \<noteq> None) \<and> shared_ok s' \<and>
    shared_look s' = (if shared_look s k = None then shared_look s else (shared_look s)(k \<mapsto> cstr v))"
proof -
  obtain env w where s: "s = (env, w)" by fastforce
  obtain b' w' where r: "cache_update env Mapped_base (Some k) (Some v) w = (b', w')" by fastforce
  with p s have c: "c" "b = b'" "s' = (env, w')"
    by (simp_all add: shared_perform_def perform_shared_def)
  from ok s have wf: "table_wf (acquired_write env w)" and lock: "wrlock_rc env (hist w) = 0"
    and a: "acquired_write env w = mem w"
    by (simp_all add: shared_ok_def locks_ok_def)
  have kf: "key_fits k" "cstr k = k" using bench_names_fit[of k] k by auto
  from cache_update_spec[OF wf kf(1) v lock] r
  have wf': "table_wf (mem w')" and cap: "capacity (hdr (mem w')) = capacity (hdr (mem w))"
    and u: "(b', abs_map (mem w')) =
      updated (write_time env w) (update_stamp env w) k (cstr v) (abs_map (mem w))"
    by (simp_all add: a kf(2))
  show ?thesis
  proof (cases "abs_map (mem w) k")
    case None
    with u have "\<not> b'" "abs_map (mem w') = abs_map (mem w)" by (simp_all add: updated_def)
    with c s ok wf' cap None show ?thesis by (auto simp: shared_ok_def shared_look_def fun_eq_iff)
  next
    case (Some it)
    then have "item_ttl it = 0" using ok s by (auto simp: shared_ok_def)
    with u Some have m: "b'" "abs_map (mem w') = (abs_map (mem w))
        (k \<mapsto> it\<lparr>item_value := cstr v, item_time := update_stamp env w\<rparr>)"
      by (simp_all add: updated_def item_expired_def)
    have "shared_ok (env, w')"
      using ok s wf' cap m k \<open>item_ttl it = 0\<close> by (auto simp: shared_ok_def)
    with c s m Some show ?thesis by (auto simp: shared_look_def fun_eq_iff)
  qed
qed

interpretation shared: bench_store shared_ok shared_look shared_prepare shared_perform
proof
  fix s :: "'a env_scheme \<times> world"
  assume "shared_ok s"
  then show "shared_look s ''bench-miss'' = None"
    by (auto simp: shared_ok_def shared_look_def bench_names_def split: prod.splits)
next
  fix s s' :: "'a env_scheme \<times> world" and v b
  assume "shared_ok s" "value_fits v" "shared_prepare v s = (b, s')"
  then show "b \<and> shared_ok s' \<and>
    shared_look s' = (shared_look s)(''bench-hit'' \<mapsto> cstr v, ''bench-update'' \<mapsto> cstr v)"
    by (rule shared_prepare_law)
qed (fact shared_get_law shared_put_law shared_update_law)+

section \<open>The socket baseline as a store\<close>

text \<open>The state is the link of every request, the number of requests so far, and the map.\<close>

type_synonym socket_state = "(nat \<Rightarrow> link) \<times> nat \<times> store_map"

definition socket_ok :: "socket_state \<Rightarrow> bool" where
  "socket_ok s \<longleftrightarrow>
     (case s of (links, n, vals) \<Rightarrow> (\<forall>i. link_ok (links i)) \<and> dom vals \<subseteq> bench_names \<and>
        (\<forall>k v. vals k = Some v \<longrightarrow> length v < MAX_VAL_LEN \<and> NUL \<notin> set v))"

definition socket_look :: "socket_state \<Rightarrow> string \<Rightarrow> string option" where
  "socket_look s k = snd (snd s) k"

definition socket_prepare :: "char list \<Rightarrow> socket_state \<Rightarrow> bool \<times> socket_state" where
  "socket_prepare payload s =
     (case s of (links, n, vals) \<Rightarrow>
        let (ok, vals) = prepare_socket (links n) (links (n + 1)) payload vals
        in (ok, (links, n + 2, vals)))"

definition socket_perform :: "socket_state performer" where
  "socket_perform operation key val out_value s =
     (case s of (links, n, vals) \<Rightarrow>
        let (completed, succeeded, out, vals) =
              perform_socket (links n) operation key val out_value vals
        in ((completed, succeeded, out), (links, n + 1, vals)))"

lemma zero_response_value: "length (resp_value zero_response) = MAX_VAL_LEN"
  by (simp add: zero_response_def)

lemma bench_name_cut: "k \<in> insert ''bench-miss'' bench_names \<Longrightarrow> take (MAX_KEY_LEN - 1) (cstr k) = k"
  by (auto simp: bench_names_def MAX_KEY_LEN_def)

lemma value_cut: "value_fits v \<Longrightarrow> take (MAX_VAL_LEN - 1) (cstr v) = cstr v"
  by (simp add: value_fits_def strlen_def)

lemma request_P:
  assumes "link_ok lk" "k \<in> bench_names" "value_fits v" "length (resp_value p) = MAX_VAL_LEN"
  shows "request lk CHR ''P'' k (Some v) p vals =
    (True, zero_response\<lparr>resp_status := 1\<rparr>, vals(k \<mapsto> cstr v))"
  using request_ok[OF assms(1,4) serve_request_P[of k v vals]] bench_name_cut[of k] assms(2)
  by (simp add: value_cut[OF assms(3)] del: One_nat_def)

lemma socket_ok_stored:
  "socket_ok (links, n, vals) \<Longrightarrow> k \<in> bench_names \<Longrightarrow> value_fits v \<Longrightarrow>
   socket_ok (links, m, vals(k \<mapsto> cstr v))"
  by (auto simp: socket_ok_def value_fits_def strlen_def)

lemma socket_prepare_law:
  assumes ok: "socket_ok s" and v: "value_fits v" and p: "socket_prepare v s = (b, s')"
  shows "b \<and> socket_ok s' \<and>
    socket_look s' = (socket_look s)(''bench-hit'' \<mapsto> cstr v, ''bench-update'' \<mapsto> cstr v)"
proof -
  obtain links n vals where s: "s = (links, n, vals)" by (cases s) auto
  have n: "''bench-hit'' \<in> bench_names" "''bench-update'' \<in> bench_names"
    by (simp_all add: bench_names_def)
  have lk: "link_ok (links i)" for i using ok s by (simp add: socket_ok_def)
  have z: "length (resp_value (zero_response\<lparr>resp_status := 1\<rparr>)) = MAX_VAL_LEN"
    by (simp add: zero_response_value)
  have "socket_ok (links, n + 2, vals(''bench-hit'' \<mapsto> cstr v, ''bench-update'' \<mapsto> cstr v))"
    using socket_ok_stored[OF socket_ok_stored[OF ok[unfolded s] n(1) v, of n] n(2) v] .
  with p request_P[OF lk n(1) v zero_response_value] request_P[OF lk n(2) v z] show ?thesis
    by (auto simp: s socket_prepare_def prepare_socket_def socket_look_def fun_eq_iff)
qed

lemma socket_get_law:
  assumes ok: "socket_ok s" and k: "k \<in> insert ''bench-miss'' bench_names"
    and g: "socket_perform CHR ''G'' k v (replicate MAX_VAL_LEN NUL) s = ((c, b, out), s')"
  shows "c \<and> (b \<longleftrightarrow> socket_look s k \<noteq> None) \<and> (b \<longrightarrow> socket_look s k = Some (cstr out)) \<and>
    socket_ok s' \<and> socket_look s' = socket_look s"
proof -
  obtain links n vals where s: "s = (links, n, vals)" by (cases s) auto
  have lk: "link_ok (links n)" using ok s by (simp add: socket_ok_def)
  have ok': "socket_ok (links, n + 1, vals)" using ok s by (simp add: socket_ok_def)
  note cut = bench_name_cut[OF k]
  show ?thesis
  proof (cases "vals k")
    case None
    then have "serve_one (make_request CHR ''G'' k (Some v)) vals = Some (zero_response, vals)"
      by (simp add: serve_request_G cut del: One_nat_def)
    from request_ok[OF lk zero_response_value this] g ok' None s show ?thesis
      by (auto simp: socket_perform_def perform_socket_def socket_look_def zero_response_def)
  next
    case (Some x)
    let ?p = "zero_response\<lparr>resp_status := 1,
      resp_value := strncpy (resp_value zero_response) x (MAX_VAL_LEN - 1)\<rparr>"
    have x: "length x < MAX_VAL_LEN" "cstr x = x" using ok s Some by (auto simp: socket_ok_def)
    have "serve_one (make_request CHR ''G'' k (Some v)) vals = Some (?p, vals)"
      using Some by (simp add: serve_request_G cut del: One_nat_def)
    from request_ok[OF lk zero_response_value this] g s
    have r: "c" "b" "s' = (links, n + 1, vals)"
      "out = strncpy (replicate MAX_VAL_LEN NUL) (resp_value ?p) (MAX_VAL_LEN - 1)"
      by (auto simp: socket_perform_def perform_socket_def)
    have pos: "0 < MAX_VAL_LEN" by (simp add: MAX_VAL_LEN_def)
    have "cstr out = x"
      using x strncpy_zero(1)[OF pos, of "resp_value ?p"] strncpy_zero(1)[OF pos, of x]
      unfolding r(4) by (simp add: zero_response_def)
    with r ok' Some s show ?thesis by (simp add: socket_look_def fun_eq_iff)
  qed
qed

lemma socket_put_law:
  assumes ok: "socket_ok s" and k: "k \<in> bench_names" and v: "value_fits v"
    and p: "socket_perform CHR ''P'' k v out0 s = ((c, b, out), s')"
  shows "c \<and> b \<and> socket_ok s' \<and> socket_look s' = (socket_look s)(k \<mapsto> cstr v)"
proof -
  obtain links n vals where s: "s = (links, n, vals)" by (cases s) auto
  have lk: "link_ok (links n)" using ok s by (simp add: socket_ok_def)
  from request_P[OF lk k v zero_response_value] p s
  have "c" "b" "s' = (links, n + 1, vals(k \<mapsto> cstr v))"
    by (auto simp: socket_perform_def perform_socket_def)
  with socket_ok_stored[OF ok[unfolded s] k v] s show ?thesis by (auto simp: socket_look_def)
qed

lemma socket_update_law:
  assumes ok: "socket_ok s" and k: "k \<in> bench_names" and v: "value_fits v"
    and p: "socket_perform CHR ''U'' k v out0 s = ((c, b, out), s')"
  shows "c \<and> (b \<longleftrightarrow> socket_look s k \<noteq> None) \<and> socket_ok s' \<and>
    socket_look s' = (if socket_look s k = None then socket_look s else (socket_look s)(k \<mapsto> cstr v))"
proof -
  obtain links n vals where s: "s = (links, n, vals)" by (cases s) auto
  have lk: "link_ok (links n)" using ok s by (simp add: socket_ok_def)
  have cut: "take (MAX_KEY_LEN - 1) (cstr k) = k" using bench_name_cut[of k] k by simp
  show ?thesis
  proof (cases "vals k")
    case None
    then have "serve_one (make_request CHR ''U'' k (Some v)) vals = Some (zero_response, vals)"
      by (simp add: serve_request_U cut del: One_nat_def)
    from request_ok[OF lk zero_response_value this] p ok None s show ?thesis
      by (auto simp: socket_perform_def perform_socket_def socket_look_def zero_response_def socket_ok_def)
  next
    case (Some x)
    then have "serve_one (make_request CHR ''U'' k (Some v)) vals
        = Some (zero_response\<lparr>resp_status := 1\<rparr>, vals(k \<mapsto> cstr v))"
      by (simp add: serve_request_U cut value_cut[OF v] del: One_nat_def)
    from request_ok[OF lk zero_response_value this] p s
    have "c" "b" "s' = (links, n + 1, vals(k \<mapsto> cstr v))"
      by (auto simp: socket_perform_def perform_socket_def)
    with socket_ok_stored[OF ok[unfolded s] k v] s Some show ?thesis by (auto simp: socket_look_def)
  qed
qed

interpretation socket: bench_store socket_ok socket_look socket_prepare socket_perform
proof
  fix s assume "socket_ok s"
  then show "socket_look s ''bench-miss'' = None"
    by (auto simp: socket_ok_def socket_look_def bench_names_def dom_def split: prod.splits)
qed (fact socket_prepare_law socket_get_law socket_put_law socket_update_law)+

end
