(* ===== verification/Session.thy ===== *)
theory Session
  imports Socket "HOL-Library.Multiset"
begin

text \<open>
  The life of a \<open>LocalSocketCache\<close> of \<open>bench/benchmark_socket.cpp\<close>: the constructor, with a socket
  pair and a server thread for every client, and the shutdown in the destructor, with the
  descriptors and threads held along the way.
\<close>

section \<open>System calls\<close>

text \<open>
  The calls made, newest first.  A server thread is named by the descriptor it serves; its
  \<open>Close\<close> stands before its \<open>Join\<close>.
\<close>

datatype sock_event =
    Socketpair "(int \<times> int) option"
  | Thread_started int
  | Thread_failed int
  | Quit_sent int nat
  | Shutdown int
  | Close int
  | Join int

text \<open>
  What the operating system answers: the two descriptors of \<open>socketpair\<close>, the \<open>what()\<close> of an
  exception when a thread cannot be started, and the transfers of the closing messages.
\<close>

record sock_env =
  socketpair_r :: "sock_event list \<Rightarrow> (int \<times> int) option"
  thread_r :: "sock_event list \<Rightarrow> string option"
  quit_write :: "sock_event list \<Rightarrow> io_result list"
  quit_read :: "sock_event list \<Rightarrow> io_result list"

record LocalSocketCache =
  clients :: "int list"
  servers :: "int list"

section \<open>Shutdown\<close>

definition quit_request :: Request where
  "quit_request = \<lparr>req_operation = CHR ''Q'', req_key = replicate MAX_KEY_LEN NUL,
     req_value = replicate MAX_VAL_LEN NUL\<rparr>"

text \<open>The first loop: the bytes each server finds on its connection are returned.\<close>

fun quit_clients :: "sock_env \<Rightarrow> int list \<Rightarrow> sock_event list \<Rightarrow> char list list \<times> sock_event list" where
  "quit_clients env [] h = ([], h)"
| "quit_clients env (fd # fds) h =
     (let (_, _, wire) = transfer_all True (request_bytes quit_request) [] (quit_write env h);
          h = Close fd # Shutdown fd # Quit_sent fd (length wire) # h;
          (wires, h) = quit_clients env fds h
      in (wire # wires, h))"

text \<open>
  The second loop.  \<open>join\<close> returns when the server has left its loop and closed its descriptor;
  \<open>None\<close>: it waits for ever.
\<close>

fun join_servers :: "sock_env \<Rightarrow> (int \<times> char list) list \<Rightarrow> sock_event list \<Rightarrow> sock_event list option" where
  "join_servers env [] h = Some h"
| "join_servers env ((fd, wire) # rest) h =
     (case serve_pass \<lparr>client_write = [], server_read = quit_read env h, server_write = [], client_read = []\<rparr>
             wire (\<lambda>k. None) of
        (on, _) \<Rightarrow> if on then None else join_servers env rest (Join fd # Close fd # h))"

definition shutdown_clients ::
  "sock_env \<Rightarrow> LocalSocketCache \<Rightarrow> sock_event list \<Rightarrow> (LocalSocketCache \<times> sock_event list) option" where
  "shutdown_clients env c h =
     (let (wires, h) = quit_clients env (clients c) h
      in map_option (Pair \<lparr>clients = [], servers = []\<rparr>) (join_servers env (zip (servers c) wires) h))"

section \<open>The constructor\<close>

fun connect_loop ::
  "sock_env \<Rightarrow> nat \<Rightarrow> LocalSocketCache \<Rightarrow> sock_event list
     \<Rightarrow> string option \<times> LocalSocketCache \<times> sock_event list" where
  "connect_loop env 0 c h = (None, c, h)"
| "connect_loop env (Suc n) c h =
     (case socketpair_r env h of
        None \<Rightarrow> (Some ''socketpair failed'', c, Socketpair None # h)
      | Some (mine, theirs) \<Rightarrow>
          (let h = Socketpair (Some (mine, theirs)) # h;
               c = c\<lparr>clients := clients c @ [mine]\<rparr>
           in case thread_r env h of
                Some what \<Rightarrow> (Some what, c, Thread_failed theirs # h)
              | None \<Rightarrow> connect_loop env n (c\<lparr>servers := servers c @ [theirs]\<rparr>)
                          (Thread_started theirs # h)))"

text \<open>\<open>Inl\<close>: the exception it throws, after its \<open>catch\<close> has shut down what was there.\<close>

definition construct ::
  "sock_env \<Rightarrow> u32 \<Rightarrow> sock_event list \<Rightarrow> ((string + LocalSocketCache) \<times> sock_event list) option" where
  "construct env client_count h =
     (case connect_loop env (unat client_count) \<lparr>clients = [], servers = []\<rparr> h of
        (None, c, h) \<Rightarrow> Some (Inr c, h)
      | (Some what, c, h) \<Rightarrow> map_option (\<lambda>(_, h). (Inl what, h)) (shutdown_clients env c h))"

section \<open>What is held\<close>

fun open_sockets :: "sock_event list \<Rightarrow> int multiset" where
  "open_sockets [] = {#}"
| "open_sockets (Socketpair (Some (a, b)) # h) = add_mset a (add_mset b (open_sockets h))"
| "open_sockets (Close fd # h) = open_sockets h - {#fd#}"
| "open_sockets (_ # h) = open_sockets h"

fun running_threads :: "sock_event list \<Rightarrow> int multiset" where
  "running_threads [] = {#}"
| "running_threads (Thread_started fd # h) = add_mset fd (running_threads h)"
| "running_threads (Join fd # h) = running_threads h - {#fd#}"
| "running_threads (_ # h) = running_threads h"

text \<open>The descriptors that threads should have served which could not be started.\<close>

fun orphans :: "sock_event list \<Rightarrow> int multiset" where
  "orphans [] = {#}"
| "orphans (Thread_failed fd # h) = add_mset fd (orphans h)"
| "orphans (_ # h) = orphans h"

section \<open>A server always leaves when its client quits\<close>

text \<open>What is sent is a beginning of the message, and what is received was on the wire.\<close>

lemma transfer_loop_sends_prefix:
  "\<exists>n. snd (snd (transfer_loop True t data wire script)) = wire @ take n (drop t data)"
proof (induction script arbitrary: t wire)
  case Nil
  show ?case by (intro exI[of _ 0]) simp
next
  case (Cons res script)
  show ?case
  proof (cases "t < length data")
    case False
    then show ?thesis by (intro exI[of _ 0]) simp
  next
    case True
    note here = exI[of "\<lambda>n. wire = wire @ take n (drop t data)" 0]
    show ?thesis
    proof (cases res)
      case Interrupted
      with True Cons.IH[of t wire] show ?thesis by simp
    next
      case Failed
      with True here show ?thesis by simp
    next
      case (Moved n)
      let ?m = "min n (length data - t)"
      obtain k where "snd (snd (transfer_loop True (t + ?m) data (wire @ take ?m (drop t data)) script))
          = (wire @ take ?m (drop t data)) @ take k (drop (t + ?m) data)"
        using Cons.IH by blast
      also have "\<dots> = wire @ take (?m + k) (drop t data)"
        by (simp only: take_add drop_drop append_assoc add.commute[of t ?m])
      finally show ?thesis
        using True Moved here by (cases "?m = 0") (auto simp: Let_def)
    qed
  qed
qed

lemma transfer_loop_receives:
  "transfer_loop False t data wire script = (True, data', wire') \<Longrightarrow> t \<le> length data \<Longrightarrow>
   length data - t \<le> length wire"
proof (induction script arbitrary: t data wire)
  case Nil
  then show ?case by simp
next
  case (Cons res script)
  show ?case
  proof (cases "t < length data")
    case False
    then show ?thesis by simp
  next
    case True
    show ?thesis
    proof (cases res)
      case Interrupted
      with True Cons show ?thesis by simp
    next
      case Failed
      with True Cons show ?thesis by simp
    next
      case (Moved n)
      let ?m = "min (min n (length data - t)) (length wire)"
      let ?d = "take t data @ take ?m wire @ drop (t + ?m) data"
      have tl: "transfer_loop False (t + ?m) ?d (drop ?m wire) script = (True, data', wire')"
        using Cons.prems(1) True Moved by (auto simp: Let_def split: if_splits)
      have len: "length ?d = length data" and le: "t + ?m \<le> length data" using True by simp_all
      from Cons.IH[OF tl, unfolded len length_drop, OF le]
      have "length data - (t + ?m) \<le> length wire - ?m" .
      moreover have "?m \<le> length wire" by simp
      ultimately show ?thesis by linarith
    qed
  qed
qed

lemma length_quit_request: "length (request_bytes quit_request) = sizeof_Request"
  by (simp add: request_bytes_def quit_request_def MAX_KEY_LEN_def MAX_VAL_LEN_def)

lemma server_quits:
  "\<not> fst (serve_pass lk (take n (request_bytes quit_request)) vals)"
proof -
  let ?w = "take n (request_bytes quit_request)" and ?b = "replicate sizeof_Request NUL"
  obtain ok buf w' where r: "transfer_all False ?b ?w (server_read lk) = (ok, buf, w')"
    by (metis prod_cases3)
  show ?thesis
  proof (cases ok)
    case False
    with r show ?thesis by (simp add: serve_pass_def)
  next
    case True
    with r have l: "transfer_loop False 0 ?b ?w (server_read lk) = (True, buf, w')"
      by (simp add: transfer_all_def)
    from transfer_loop_receives[OF l] have len: "sizeof_Request \<le> length ?w" by simp
    then have w: "?w = request_bytes quit_request" by (simp add: length_quit_request)
    from transfer_loop_receive[OF l] len have "buf = take sizeof_Request ?w" by simp
    then have "buf = request_bytes quit_request" unfolding w by (simp add: length_quit_request del: sizeof_messages)
    moreover have "read_request (request_bytes quit_request) = quit_request"
      by (rule read_request_bytes) (simp add: quit_request_def)
    moreover have "serve_one quit_request vals = None"
      by (simp add: serve_one_def quit_request_def)
    ultimately show ?thesis using r True by (simp add: serve_pass_def)
  qed
qed

section \<open>Accounting\<close>

lemma quit_clients_effect:
  assumes "quit_clients env fds h = (wires, h')"
  shows "length wires = length fds \<and> (\<forall>w\<in>set wires. \<exists>n. w = take n (request_bytes quit_request)) \<and>
    open_sockets h' = open_sockets h - mset fds \<and> running_threads h' = running_threads h \<and>
    orphans h' = orphans h"
  using assms
proof (induction fds arbitrary: h wires h')
  case Nil
  then show ?case by simp
next
  case (Cons fd fds)
  obtain ok d wire where t: "transfer_all True (request_bytes quit_request) [] (quit_write env h) = (ok, d, wire)"
    by (metis prod_cases3)
  then have "snd (snd (transfer_loop True 0 (request_bytes quit_request) [] (quit_write env h))) = wire"
    by (simp add: transfer_all_def)
  with transfer_loop_sends_prefix[of 0 "request_bytes quit_request" "[]" "quit_write env h"]
  have w: "\<exists>n. wire = take n (request_bytes quit_request)" by simp
  obtain ws h2 where q: "quit_clients env fds (Close fd # Shutdown fd # Quit_sent fd (length wire) # h) = (ws, h2)"
    by fastforce
  from Cons.prems t q have r: "wires = wire # ws" "h' = h2" by (simp_all add: Let_def)
  from Cons.IH[OF q] w r show ?case by simp
qed

lemma join_servers_effect:
  assumes "\<forall>w\<in>set wires. \<exists>n. w = take n (request_bytes quit_request)" "length fds \<le> length wires"
  shows "\<exists>h'. join_servers env (zip fds wires) h = Some h' \<and>
    open_sockets h' = open_sockets h - mset fds \<and> running_threads h' = running_threads h - mset fds \<and>
    orphans h' = orphans h"
  using assms
proof (induction fds arbitrary: wires h)
  case Nil
  then show ?case by simp
next
  case (Cons fd fds)
  then obtain w ws where w: "wires = w # ws" by (cases wires) auto
  with Cons.prems obtain n where n: "w = take n (request_bytes quit_request)" by auto
  from Cons.IH[of ws "Join fd # Close fd # h"] Cons.prems w
  obtain h' where "join_servers env (zip fds ws) (Join fd # Close fd # h) = Some h'"
    "open_sockets h' = open_sockets h - {#fd#} - mset fds"
    "running_threads h' = running_threads h - {#fd#} - mset fds" "orphans h' = orphans h" by auto
  with w n show ?case
    using server_quits by (auto split: prod.split) (metis fst_conv)
qed

lemma shutdown_clients_effect:
  assumes "length (servers c) \<le> length (clients c)"
  shows "\<exists>h'. shutdown_clients env c h = Some (\<lparr>clients = [], servers = []\<rparr>, h') \<and>
    open_sockets h' = open_sockets h - mset (clients c) - mset (servers c) \<and>
    running_threads h' = running_threads h - mset (servers c) \<and> orphans h' = orphans h"
proof -
  obtain wires h1 where q: "quit_clients env (clients c) h = (wires, h1)" by fastforce
  note 1 = quit_clients_effect[OF q]
  with assms join_servers_effect[of wires "servers c" env h1] obtain h2 where
    "join_servers env (zip (servers c) wires) h1 = Some h2"
    "open_sockets h2 = open_sockets h1 - mset (servers c)"
    "running_threads h2 = running_threads h1 - mset (servers c)" "orphans h2 = orphans h1" by auto
  with 1 q show ?thesis by (simp add: shutdown_clients_def)
qed

text \<open>
  What the loop of the constructor has taken is what the object holds, and, when a thread could not
  be started, the other end of its socket pair.
\<close>

lemma connect_loop_effect:
  assumes "connect_loop env n c h = (exc, c', h')" "length (servers c) = length (clients c)"
    and "open_sockets h = mset (clients c) + mset (servers c)" "running_threads h = mset (servers c)"
    and "orphans h = {#}"
  shows "open_sockets h' = mset (clients c') + mset (servers c') + orphans h' \<and>
    running_threads h' = mset (servers c') \<and> length (servers c') \<le> length (clients c') \<and>
    size (orphans h') \<le> 1 \<and>
    (exc = None \<longrightarrow> length (clients c') = length (clients c) + n \<and>
       length (servers c') = length (clients c') \<and> orphans h' = {#})"
  using assms
proof (induction n arbitrary: c h)
  case 0
  then show ?case by simp
next
  case (Suc n)
  show ?case
  proof (cases "socketpair_r env h")
    case None
    with Suc.prems show ?thesis by auto
  next
    case (Some ab)
    obtain a b where ab: "ab = (a, b)" by fastforce
    let ?h = "Socketpair (Some (a, b)) # h" and ?c = "c\<lparr>clients := clients c @ [a]\<rparr>"
    show ?thesis
    proof (cases "thread_r env ?h")
      case thr: (Some what)
      with Some ab Suc.prems show ?thesis by (auto simp: Let_def)
    next
      case thr: None
      let ?c' = "?c\<lparr>servers := servers ?c @ [b]\<rparr>"
      have "connect_loop env n ?c' (Thread_started b # ?h) = (exc, c', h')"
        using Suc.prems(1) Some ab thr by (simp add: Let_def)
      from Suc.IH[OF this] Suc.prems(2-5) show ?thesis by simp
    qed
  qed
qed

text \<open>The environment never makes the constructor throw.\<close>

definition sockets_work :: "sock_env \<Rightarrow> bool" where
  "sockets_work env \<longleftrightarrow> (\<forall>h. socketpair_r env h \<noteq> None \<and> thread_r env h = None)"

lemma connect_loop_works:
  "sockets_work env \<Longrightarrow> fst (connect_loop env n c h) = None"
  by (induction n arbitrary: c h) (auto simp: sockets_work_def Let_def split: option.split)

lemma construct_cases:
  obtains (thrown) what h where "construct env n [] = Some (Inl what, h)" "running_threads h = {#}"
      "open_sockets h = orphans h" "size (orphans h) \<le> 1"
    | (made) c h where "construct env n [] = Some (Inr c, h)" "length (clients c) = unat n"
      "length (servers c) = unat n" "open_sockets h = mset (clients c) + mset (servers c)"
      "running_threads h = mset (servers c)"
proof -
  let ?c0 = "\<lparr>clients = [], servers = []\<rparr>"
  obtain exc c h where l: "connect_loop env (unat n) ?c0 [] = (exc, c, h)" by (metis prod_cases3)
  from connect_loop_effect[OF l]
  have o: "open_sockets h = mset (clients c) + mset (servers c) + orphans h"
    "running_threads h = mset (servers c)" "length (servers c) \<le> length (clients c)" "size (orphans h) \<le> 1"
    "exc = None \<longrightarrow> length (clients c) = unat n \<and> length (servers c) = length (clients c) \<and> orphans h = {#}"
    by simp_all
  show ?thesis
  proof (cases exc)
    case None
    with l o show ?thesis by (intro made[of c h]) (simp_all add: construct_def)
  next
    case (Some what)
    obtain h' where "shutdown_clients env c h = Some (?c0, h')"
      "open_sockets h' = open_sockets h - mset (clients c) - mset (servers c)"
      "running_threads h' = running_threads h - mset (servers c)" "orphans h' = orphans h"
      using shutdown_clients_effect[OF o(3)] by blast
    with Some l o show ?thesis
      by (intro thrown[of what h']) (simp_all add: construct_def)
  qed
qed

lemma construct_works:
  assumes "sockets_work env"
  obtains c h where "construct env n [] = Some (Inr c, h)" "length (servers c) = length (clients c)"
proof (cases rule: construct_cases[of env n])
  case (thrown what h)
  have "fst (connect_loop env (unat n) \<lparr>clients = [], servers = []\<rparr> []) = None"
    by (rule connect_loop_works[OF assms])
  with thrown(1) show ?thesis by (auto simp: construct_def split: prod.splits)
next
  case (made c h)
  then show ?thesis by (intro that[of c h]) simp_all
qed

lemma shutdown_clients_returns:
  "length (servers c) = length (clients c) \<Longrightarrow>
   \<exists>h'. shutdown_clients env c h = Some (\<lparr>clients = [], servers = []\<rparr>, h')"
  using shutdown_clients_effect[of c env h] by auto

end
