(* ===== verification/BenchMain.thy ===== *)
theory BenchMain
  imports Reporting Benchmark Session
begin

text \<open>
  The \<open>main\<close> of \<open>bench/cache_benchmark.cpp\<close>: the options, the private shared-memory object, every
  combination of payload size, workload, number of threads, trial and implementation, one CSV
  row and one summary line for each, and the exit status.  What the machine decides is in the
  environment: its name and processor, the process id, whether the sockets and threads of a run
  can be created, the order of the workers' operations and what the clock measures.
\<close>

section \<open>Options\<close>

fun parse_args :: "char list list \<Rightarrow> u32 \<Rightarrow> u32 \<Rightarrow> string + u32 \<times> u32" where
  "parse_args [] ops trials = Inr (ops, trials)"
| "parse_args [opt] ops trials =
     Inl (''Usage: memsync_benchmark [--operations N] [--trials N]'' @ NL)"
| "parse_args (opt # val # rest) ops trials =
     (case parse_positive val of
        None \<Rightarrow> Inl (''Benchmark counts must be positive 32-bit integers.'' @ NL)
      | Some parsed \<Rightarrow>
          if strcmp_eq opt ''--operations'' then parse_args rest parsed trials
          else if strcmp_eq opt ''--trials'' then parse_args rest ops parsed
          else Inl (''Unknown option: '' @ cstr opt @ NL))"

section \<open>One run\<close>

record bench_env = os_env +
  pid :: nat
  uname_r :: "(string \<times> string \<times> string) option"
  cpuinfo :: "string list"
  compiler :: string
  build_type :: string
  sockets_r :: "nat \<Rightarrow> sock_env"
  schedule_r :: "nat \<Rightarrow> (nat \<times> nat) list"
  elapsed_r :: "nat \<Rightarrow> nat \<times> nat \<Rightarrow> rat"
  whole_r :: "nat \<Rightarrow> rat"
  links_r :: "nat \<Rightarrow> nat \<Rightarrow> link"

record bench_state =
  bench_world :: world
  runs :: nat
  failed :: bool

text \<open>A combination: payload size, workload, threads, trial, and whether it is the shared cache.\<close>

type_synonym config = "nat \<times> string \<times> u32 \<times> u32 \<times> bool"

text \<open>
  The measurement of the \<open>n\<close>-th run; \<open>Inl\<close> is the \<open>what()\<close> of an exception from the constructor
  of the sockets and server threads, which are shut down at the end of the run.  \<open>None\<close>: one of
  the threads is waited for in vain.
\<close>

definition measure ::
  "bench_env \<Rightarrow> u32 \<Rightarrow> config \<Rightarrow> nat \<Rightarrow> world \<Rightarrow> ((string + Measurement) \<times> world) option" where
  "measure be ops cfg n w =
     (case cfg of (size_p, workload, tc, trial, shared) \<Rightarrow>
        let payload = replicate size_p (CHR ''v'')
        in if shared then
             (case run_measurement shared_prepare shared_perform workload payload tc ops
                     (schedule_r be n) (elapsed_r be n) (whole_r be n) (be, w) of
                (m, (_, w)) \<Rightarrow> Some (Inr m, w))
           else (case construct (sockets_r be n) tc [] of
               None \<Rightarrow> None
             | Some (Inl what, _) \<Rightarrow> Some (Inl what, w)
             | Some (Inr socket_cache, h) \<Rightarrow>
                 (case run_measurement socket_prepare socket_perform workload payload tc ops
                     (schedule_r be n) (elapsed_r be n) (whole_r be n) (links_r be n, 0, \<lambda>k. None) of
                    (m, _) \<Rightarrow>
                      (case shutdown_clients (sockets_r be n) socket_cache h of
                         None \<Rightarrow> None
                       | Some _ \<Rightarrow> Some (Inr m, w)))))"

definition throughput :: "Measurement \<Rightarrow> rat" where
  "throughput m =
     (if 0 < seconds m then round53 (round53 (of_nat (unat (operations m))) / seconds m) else 0)"

definition implementation :: "bool \<Rightarrow> string" where
  "implementation shared = (if shared then ''shared_memory'' else ''unix_socket'')"

definition host :: "bench_env \<Rightarrow> string \<times> string \<times> string" where
  "host be = (case uname_r be of None \<Rightarrow> (''unknown'', ''unknown'', ''unknown'') | Some u \<Rightarrow> u)"

definition percentile_texts :: "Measurement \<Rightarrow> string \<times> string \<times> string" where
  "percentile_texts m =
     (show_double (percentile (latency_us m) (round53 (1 / 2))),
      show_double (percentile (latency_us m) (round53 (95 / 100))),
      show_double (percentile (latency_us m) (round53 (99 / 100))))"

definition csv_row :: "bench_env \<Rightarrow> string \<Rightarrow> u32 \<Rightarrow> config \<Rightarrow> Measurement \<Rightarrow> string" where
  "csv_row be cpu ops cfg m =
     (case cfg of (size_p, workload, tc, trial, shared) \<Rightarrow>
      case percentile_texts m of (p50, p95, p99) \<Rightarrow>
      case host be of (system, release, architecture) \<Rightarrow>
        implementation shared @ '','' @ workload @ '','' @ decimal size_p @ '','' @
        decimal (unat tc) @ '','' @ decimal (unat trial) @ '','' @
        decimal (unat (operations m)) @ '','' @ decimal (unat (failures m)) @ '','' @
        p50 @ '','' @ p95 @ '','' @ p99 @ '','' @ show_double (throughput m) @ '','' @
        csv_quote system @ '','' @ csv_quote release @ '','' @ csv_quote architecture @ '','' @
        csv_quote cpu @ '','' @ csv_quote (compiler be) @ '','' @ csv_quote (build_type be) @ '','' @
        decimal (unat (min 100 ops)) @ NL)"

definition summary :: "config \<Rightarrow> Measurement \<Rightarrow> string" where
  "summary cfg m =
     (case cfg of (size_p, workload, tc, trial, shared) \<Rightarrow>
      case percentile_texts m of (p50, p95, p99) \<Rightarrow>
        implementation shared @ '' '' @ workload @ '' payload='' @ decimal size_p @
        '' threads='' @ decimal (unat tc) @ '' trial='' @ decimal (unat trial) @
        '' operations='' @ decimal (unat (operations m)) @ '' failures='' @ decimal (unat (failures m)) @
        '' median_us='' @ p50 @ '' p95_us='' @ p95 @ '' p99_us='' @ p99 @
        '' throughput_ops_sec='' @ show_double (throughput m) @ NL)"

text \<open>
  The body of the innermost loop.  \<open>cpu_model\<close> is called for every row, outside the \<open>try\<close>; an
  exception from it ends the program.
\<close>

definition run_config ::
  "bench_env \<Rightarrow> u32 \<Rightarrow> config \<Rightarrow> bench_state \<Rightarrow> (cpp_exception + bench_state) option" where
  "run_config be ops cfg st =
     (case measure be ops cfg (runs st) (bench_world st) of
        None \<Rightarrow> None
      | Some (Inl what, w) \<Rightarrow>
          Some (Inr (st\<lparr>bench_world := cerr (''Benchmark setup failed: '' @ what @ NL) w,
                  runs := runs st + 1, failed := True\<rparr>))
      | Some (Inr m, w) \<Rightarrow>
          (case cpu_model (cpuinfo be) of
             Inl ex \<Rightarrow> Some (Inl ex)
           | Inr cpu \<Rightarrow>
               Some (Inr (st\<lparr>bench_world := cerr (summary cfg m) (cout (csv_row be cpu ops cfg m) w),
                       runs := runs st + 1, failed := failed st \<or> failures m \<noteq> 0\<rparr>))))"

section \<open>The loops\<close>

text \<open>
  A loop over a fixed array, and the loop over the trials, which counts up to and including the
  number of trials in 32 bits.  \<open>None\<close>: the loop does not end.
\<close>

fun each_loop :: "('x \<Rightarrow> 's \<Rightarrow> ('e + 's) option) \<Rightarrow> 'x list \<Rightarrow> 's \<Rightarrow> ('e + 's) option" where
  "each_loop body [] s = Some (Inr s)"
| "each_loop body (x # xs) s =
     (case body x s of
        None \<Rightarrow> None
      | Some (Inl ex) \<Rightarrow> Some (Inl ex)
      | Some (Inr s) \<Rightarrow> each_loop body xs s)"

partial_function (option) trial_loop ::
  "(u32 \<Rightarrow> 's \<Rightarrow> ('e + 's) option) \<Rightarrow> u32 \<Rightarrow> u32 \<Rightarrow> 's \<Rightarrow> ('e + 's) option" where
  "trial_loop body trials trial s =
     (if trial \<le> trials then
        (case body trial s of
           None \<Rightarrow> None
         | Some (Inl ex) \<Rightarrow> Some (Inl ex)
         | Some (Inr s) \<Rightarrow> trial_loop body trials (trial + 1) s)
      else Some (Inr s))"

definition payload_sizes :: "nat list" where
  "payload_sizes = [16, 128, MAX_VAL_LEN - 1]"

definition thread_counts :: "u32 list" where
  "thread_counts = [1, 4]"

definition workloads :: "string list" where
  "workloads = [''get_hit'', ''get_miss'', ''put_update'', ''mixed'']"

definition all_runs :: "bench_env \<Rightarrow> u32 \<Rightarrow> u32 \<Rightarrow> bench_state \<Rightarrow> (cpp_exception + bench_state) option" where
  "all_runs be ops trials =
     each_loop (\<lambda>size_p. each_loop (\<lambda>workload. each_loop (\<lambda>tc.
       trial_loop (\<lambda>trial. each_loop (\<lambda>shared.
         run_config be ops (size_p, workload, tc, trial, shared)) [True, False])
       trials 1) thread_counts) workloads) payload_sizes"

section \<open>The program\<close>

definition banner :: "bench_env \<Rightarrow> string \<Rightarrow> u32 \<Rightarrow> u32 \<Rightarrow> string" where
  "banner be cpu ops trials =
     (case host be of (system, release, architecture) \<Rightarrow>
        ''MemSync benchmark: '' @ system @ '' '' @ release @ '', '' @ architecture @ '', CPU: '' @ cpu @
        '', compiler: '' @ compiler be @ '', build: '' @ build_type be @
        '', operations/worker: '' @ decimal (unat ops) @ '', trials: '' @ decimal (unat trials) @
        '', warm-up: up to 100 operations per worker'' @ NL)"

definition csv_header :: string where
  "csv_header = ''implementation,workload,payload_bytes,threads,trial,operations,'' @
     ''failures,median_us,p95_us,p99_us,throughput_ops_sec,os,release,'' @
     ''architecture,cpu,compiler,build_type,warmup_operations_per_worker'' @ NL"

definition resource_name :: "bench_env \<Rightarrow> string" where
  "resource_name be = ''/memsync_bench_'' @ decimal (pid be)"

definition unlink_resource :: "bench_env \<Rightarrow> world \<Rightarrow> int \<times> world" where
  "unlink_resource be w =
     (let rc = fst (shm_unlink_r be (hist w) (resource_name be))
      in (rc, emit (Shm_unlink (resource_name be) rc) w))"

text \<open>\<open>None\<close>: the program does not end; \<open>Inl\<close>: it is terminated by an exception.\<close>

definition benchmark_main :: "bench_env \<Rightarrow> char list list \<Rightarrow> world \<Rightarrow> (cpp_exception + int \<times> world) option" where
  "benchmark_main be argv w =
     (case parse_args (tl argv) 2000 3 of
        Inl msg \<Rightarrow> Some (Inr (2, cerr msg w))
      | Inr (ops, trials) \<Rightarrow>
      case cpu_model (cpuinfo be) of
        Inl ex \<Rightarrow> Some (Inl ex)
      | Inr cpu \<Rightarrow>
         let w = cerr (banner be cpu ops trials) w;
             (_, w) = unlink_resource be w;
             (ok, mapping, w) = cache_open_shared be (Some empty_mapping) True (Some (resource_name be)) w
         in if \<not> ok then Some (Inr (1, w))
         else let w = cout csv_header w
         in case all_runs be ops trials \<lparr>bench_world = w, runs = 0, failed = False\<rparr> of
              None \<Rightarrow> None
            | Some (Inl ex) \<Rightarrow> Some (Inl ex)
            | Some (Inr st) \<Rightarrow>
                let (mapping, w) = cache_close_shared be mapping (bench_world st);
                    (rc, w) = unlink_resource be w
                in Some (Inr (if rc = - 1
                     then (1, emit (Perror ''Could not remove benchmark shared-memory cache'') w)
                     else (if failed st then 1 else 0, w))))"

section \<open>The trial loop\<close>

text \<open>With the greatest 32-bit number of trials the counter never passes the bound.\<close>

lemma trial_loop_endless:
  fixes body :: "u32 \<Rightarrow> 's \<Rightarrow> ('e + 's) option"
  assumes body: "\<And>t s. \<exists>s'. body t s = Some (Inr s')"
  shows "trial_loop body (- 1) trial s = None"
proof (rule ccontr)
  assume "trial_loop body (- 1) trial s \<noteq> None"
  then obtain y where "trial_loop body (- 1) trial s = Some y" by blast
  then have "(\<forall>t s. \<exists>s'. body t s = Some (Inr s')) \<longrightarrow> (- 1 :: u32) \<noteq> - 1"
  proof (rule trial_loop.raw_induct[of "\<lambda>body trials trial s y.
      (\<forall>t s. \<exists>s'. body t s = Some (Inr s')) \<longrightarrow> trials \<noteq> - 1", rotated], intro impI)
    fix loop :: "(u32 \<Rightarrow> 's \<Rightarrow> ('e + 's) option) \<Rightarrow> u32 \<Rightarrow> u32 \<Rightarrow> 's \<Rightarrow> ('e + 's) option"
      and body trials trial s y
    assume IH: "\<And>body trials trial s y. loop body trials trial s = Some y \<Longrightarrow>
        (\<forall>t s. \<exists>s'. body t s = Some (Inr s')) \<longrightarrow> trials \<noteq> - 1"
      and y: "(if trial \<le> trials then
          (case body trial s of None \<Rightarrow> None | Some (Inl ex) \<Rightarrow> Some (Inl ex)
           | Some (Inr s) \<Rightarrow> loop body trials (trial + 1) s)
        else Some (Inr s)) = Some y"
      and total: "\<forall>t s. \<exists>s'. body t s = Some (Inr s')"
    obtain u where "body trial s = Some (Inr u)" using total by blast
    with y IH[of body trials "trial + 1" u y] total show "trials \<noteq> - 1"
      by (cases "trial \<le> trials") auto
  qed
  with body show False by blast
qed

section \<open>A run on a working machine\<close>

text \<open>
  The state in which all went well so far, and a piece of the program that keeps it and prints one
  row without failures for each of its configurations.
\<close>

definition all_well :: "bench_env \<Rightarrow> bench_state \<Rightarrow> bool" where
  "all_well be st \<longleftrightarrow> shared_ok (be, bench_world st) \<and> \<not> failed st"

definition prints_rows ::
  "bench_env \<Rightarrow> string \<Rightarrow> u32 \<Rightarrow> config list \<Rightarrow> bench_state \<Rightarrow> bench_state \<Rightarrow> bool" where
  "prints_rows be cpu ops cfgs st st' \<longleftrightarrow>
     resources_of (hist (bench_world st')) = resources_of (hist (bench_world st)) \<and>
     (\<exists>ms. length ms = length cfgs \<and> (\<forall>m\<in>set ms. failures m = 0) \<and>
        stdout_of (hist (bench_world st')) =
          stdout_of (hist (bench_world st)) @ concat (map2 (csv_row be cpu ops) cfgs ms))"

definition does ::
  "bench_env \<Rightarrow> string \<Rightarrow> u32 \<Rightarrow> config list \<Rightarrow> (bench_state \<Rightarrow> (cpp_exception + bench_state) option) \<Rightarrow> bool"
  where
  "does be cpu ops cfgs body \<longleftrightarrow>
     (\<forall>st. all_well be st \<longrightarrow>
        (\<exists>st'. body st = Some (Inr st') \<and> all_well be st' \<and> prints_rows be cpu ops cfgs st st'))"

lemma doesE:
  assumes "does be cpu ops cfgs body" "all_well be st"
  obtains st' where "body st = Some (Inr st')" "all_well be st'" "prints_rows be cpu ops cfgs st st'"
  using assms by (auto simp: does_def)

lemma prints_nothing: "prints_rows be cpu ops [] st st"
  by (simp add: prints_rows_def)

lemma prints_more:
  assumes "prints_rows be cpu ops cs st st'" "prints_rows be cpu ops cs' st' st''"
  shows "prints_rows be cpu ops (cs @ cs') st st''"
proof -
  from assms(1) obtain ms where ms: "length ms = length cs" "\<forall>m\<in>set ms. failures m = 0"
    "stdout_of (hist (bench_world st')) =
       stdout_of (hist (bench_world st)) @ concat (map2 (csv_row be cpu ops) cs ms)"
    by (auto simp: prints_rows_def)
  from assms(2) obtain ms' where ms': "length ms' = length cs'" "\<forall>m\<in>set ms'. failures m = 0"
    "stdout_of (hist (bench_world st'')) =
       stdout_of (hist (bench_world st')) @ concat (map2 (csv_row be cpu ops) cs' ms')"
    by (auto simp: prints_rows_def)
  show ?thesis unfolding prints_rows_def
    using ms ms' assms by (intro conjI exI[of _ "ms @ ms'"]) (auto simp: prints_rows_def)
qed

lemma does_each:
  "(\<And>x. x \<in> set xs \<Longrightarrow> does be cpu ops (f x) (body x)) \<Longrightarrow>
   does be cpu ops (concat (map f xs)) (each_loop body xs)"
proof (induction xs)
  case Nil
  then show ?case by (simp add: does_def prints_nothing)
next
  case (Cons x xs)
  have x: "does be cpu ops (f x) (body x)" and xs: "does be cpu ops (concat (map f xs)) (each_loop body xs)"
    using Cons by simp_all
  show ?case unfolding does_def
  proof (intro allI impI)
    fix st assume "all_well be st"
    with x obtain st1 where 1: "body x st = Some (Inr st1)" "all_well be st1" "prints_rows be cpu ops (f x) st st1"
      by (rule doesE)
    from xs 1(2) obtain st2 where 2: "each_loop body xs st1 = Some (Inr st2)" "all_well be st2"
      "prints_rows be cpu ops (concat (map f xs)) st1 st2" by (rule doesE)
    from prints_more[OF 1(3) 2(3)] 1 2
    show "\<exists>st'. each_loop body (x # xs) st = Some (Inr st') \<and> all_well be st' \<and>
        prints_rows be cpu ops (concat (map f (x # xs))) st st'" by simp
  qed
qed

text \<open>The trials from \<open>a\<close> to \<open>b\<close>.\<close>

definition trials_from :: "nat \<Rightarrow> u32 \<Rightarrow> u32 list" where
  "trials_from a b = map of_nat [a..<Suc (unat b)]"

lemma does_trials:
  assumes max: "trials \<noteq> - 1" and body: "\<And>t. does be cpu ops (f t) (body t)"
  shows "unat trial \<le> Suc (unat trials) \<Longrightarrow>
    does be cpu ops (concat (map f (trials_from (unat trial) trials))) (trial_loop body trials trial)"
proof (induction "Suc (unat trials) - unat trial" arbitrary: trial)
  case 0
  then have "\<not> trial \<le> trials" "unat trial = Suc (unat trials)" by (auto simp: word_le_nat_alt)
  then show ?case
    by (simp add: does_def prints_nothing trials_from_def trial_loop.simps)
next
  case (Suc d)
  have le: "unat trial \<le> unat trials" using Suc.hyps(2) by simp
  have "trials < - 1" using max by (simp add: word_order.not_eq_extremum[symmetric])
  then have "trial < - 1" using le by (metis word_le_nat_alt order_le_less_trans)
  then have s: "unat (trial + 1) = Suc (unat trial)" by (rule unat_succ_less)
  have "does be cpu ops (concat (map f (trials_from (unat (trial + 1)) trials))) (trial_loop body trials (trial + 1))"
    using Suc.hyps(2) le s by (intro Suc.hyps(1)) simp_all
  note rest = this[unfolded s]
  have list: "trials_from (unat trial) trials = trial # trials_from (Suc (unat trial)) trials"
    using le by (simp add: trials_from_def upt_conv_Cons del: upt_Suc)
  show ?case unfolding does_def list
  proof (intro allI impI)
    fix st assume "all_well be st"
    with body[of trial] obtain st1 where 1: "body trial st = Some (Inr st1)" "all_well be st1"
      "prints_rows be cpu ops (f trial) st st1" by (rule doesE)
    from rest 1(2) obtain st2 where 2: "trial_loop body trials (trial + 1) st1 = Some (Inr st2)"
      "all_well be st2" "prints_rows be cpu ops (concat (map f (trials_from (Suc (unat trial)) trials))) st1 st2"
      by (rule doesE)
    have "trial_loop body trials trial st = Some (Inr st2)"
      using le 1(1) 2(1) by (subst trial_loop.simps) (simp add: word_le_nat_alt)
    with prints_more[OF 1(3) 2(3)] 2(2)
    show "\<exists>st'. trial_loop body trials trial st = Some (Inr st') \<and> all_well be st' \<and>
      prints_rows be cpu ops (concat (map f (trial # trials_from (Suc (unat trial)) trials))) st st'"
      by simp
  qed
qed

text \<open>What a measurement leaves alone: the environment, the standard output and the resources.\<close>

definition quiet :: "bench_env \<Rightarrow> world \<Rightarrow> bench_env \<times> world \<Rightarrow> bool" where
  "quiet be w s \<longleftrightarrow> fst s = be \<and> stdout_of (hist (snd s)) = stdout_of (hist w) \<and>
     resources_of (hist (snd s)) = resources_of (hist w)"

lemma shared_run_quiet:
  "quiet be w (snd (run_measurement shared_prepare shared_perform workload payload tc n schedule
     elapsed whole (be, w)))"
proof (rule run_measurement_keeps)
  show "quiet be w (snd (shared_prepare v s))" if "quiet be w s" for v s
    using that by (cases s) (simp add: quiet_def shared_prepare_def prepare_shared_def cache_put_def split_beta)
  show "quiet be w (snd (shared_perform op k v out s))" if "quiet be w s" for op k v out s
    using that by (cases s) (simp add: quiet_def shared_perform_def perform_shared_def cache_put_def split_beta)
qed (simp add: quiet_def)

text \<open>The machine: the sockets can be set up and their transfers complete, and the processor has a name.\<close>

definition machine_ok :: "bench_env \<Rightarrow> string \<Rightarrow> bool" where
  "machine_ok be cpu \<longleftrightarrow>
     (\<forall>n. sockets_work (sockets_r be n)) \<and> (\<forall>n i. link_ok (links_r be n i)) \<and> cpu_model (cpuinfo be) = Inr cpu"

lemma measure_well:
  assumes ok: "machine_ok be cpu" "shared_ok (be, w)" and size_p: "size_p < MAX_VAL_LEN"
  obtains m w' where "measure be ops (size_p, workload, tc, trial, shared) n w = Some (Inr m, w')"
    "failures m = 0" "shared_ok (be, w')" "stdout_of (hist w') = stdout_of (hist w)"
    "resources_of (hist w') = resources_of (hist w)"
proof -
  let ?v = "replicate size_p (CHR ''v'')"
  have v: "value_fits ?v" using size_p by (simp add: value_fits_def strlen_def)
  show ?thesis
  proof (cases shared)
    case True
    let ?r = "run_measurement shared_prepare shared_perform workload ?v tc ops (schedule_r be n)
      (elapsed_r be n) (whole_r be n) (be, w)"
    obtain m be' w' where r: "?r = (m, be', w')" by (metis prod_cases3)
    have "be' = be" "stdout_of (hist w') = stdout_of (hist w)" "resources_of (hist w') = resources_of (hist w)"
      using shared_run_quiet[of be w workload ?v tc ops "schedule_r be n" "elapsed_r be n" "whole_r be n"]
      by (simp_all only: r fst_conv snd_conv quiet_def)
    moreover have "failures m = 0" "shared_ok (be', w')"
      using shared.run_measurement_correct[OF ok(2) v, where workload = workload and tc = tc and n = ops
          and schedule = "schedule_r be n" and elapsed = "elapsed_r be n" and whole = "whole_r be n"]
      unfolding r by simp_all
    ultimately show ?thesis using True r by (intro that[of m w']) (simp_all add: measure_def)
  next
    case False
    let ?r = "run_measurement socket_prepare socket_perform workload ?v tc ops (schedule_r be n)
      (elapsed_r be n) (whole_r be n) (links_r be n, 0, \<lambda>k. None)"
    obtain m s' where r: "?r = (m, s')" by (metis surj_pair)
    have "socket_ok (links_r be n, 0, \<lambda>k. None)" using ok(1) by (simp add: socket_ok_def machine_ok_def)
    from socket.run_measurement_correct[OF this v, where workload = workload and tc = tc and n = ops
        and schedule = "schedule_r be n" and elapsed = "elapsed_r be n" and whole = "whole_r be n"]
    have "failures m = 0" unfolding r by simp
    moreover have "sockets_work (sockets_r be n)" using ok(1) by (simp add: machine_ok_def)
    then obtain c h where c: "construct (sockets_r be n) tc [] = Some (Inr c, h)"
      and l: "length (servers c) = length (clients c)" by (rule construct_works)
    obtain h' where "shutdown_clients (sockets_r be n) c h = Some (\<lparr>clients = [], servers = []\<rparr>, h')"
      using shutdown_clients_returns[OF l] by blast
    ultimately show ?thesis using False r ok(2) c by (intro that[of m w]) (simp_all add: measure_def)
  qed
qed

lemma does_config:
  assumes ok: "machine_ok be cpu" and size_p: "size_p < MAX_VAL_LEN"
  shows "does be cpu ops [(size_p, workload, tc, trial, shared)]
    (run_config be ops (size_p, workload, tc, trial, shared))"
  unfolding does_def
proof (intro allI impI)
  fix st assume "all_well be st"
  then have w: "shared_ok (be, bench_world st)" "\<not> failed st" by (simp_all add: all_well_def)
  let ?cfg = "(size_p, workload, tc, trial, shared)"
  obtain m w' where m: "measure be ops ?cfg (runs st) (bench_world st) = Some (Inr m, w')" "failures m = 0"
    "shared_ok (be, w')" "stdout_of (hist w') = stdout_of (hist (bench_world st))"
    "resources_of (hist w') = resources_of (hist (bench_world st))"
    by (rule measure_well[OF ok w(1) size_p])
  let ?w = "cerr (summary ?cfg m) (cout (csv_row be cpu ops ?cfg m) w')"
  let ?st = "st\<lparr>bench_world := ?w, runs := runs st + 1, failed := False\<rparr>"
  have "run_config be ops ?cfg st = Some (Inr ?st)"
    using m(1,2) w(2) ok by (simp add: run_config_def machine_ok_def)
  moreover have "all_well be ?st" using m(3) by (simp add: all_well_def shared_ok_def)
  moreover have "prints_rows be cpu ops [?cfg] st ?st"
    unfolding prints_rows_def using m(2,4,5) by (intro conjI exI[of _ "[m]"]) simp_all
  ultimately show "\<exists>st'. run_config be ops ?cfg st = Some (Inr st') \<and> all_well be st' \<and>
      prints_rows be cpu ops [?cfg] st st'" by blast
qed

text \<open>All combinations, in the order of the loops.\<close>

definition all_configs :: "u32 \<Rightarrow> config list" where
  "all_configs trials =
     concat (map (\<lambda>size_p. concat (map (\<lambda>workload. concat (map (\<lambda>tc. concat (map (\<lambda>trial.
       concat (map (\<lambda>shared. [(size_p, workload, tc, trial, shared)]) [True, False]))
       (trials_from 1 trials))) thread_counts)) workloads)) payload_sizes)"

lemma length_all_configs: "length (all_configs trials) = 48 * unat trials"
  by (simp add: all_configs_def payload_sizes_def workloads_def thread_counts_def trials_from_def
      length_concat comp_def sum_list_triv)

lemma all_runs_do:
  assumes ok: "machine_ok be cpu" and max: "trials \<noteq> - 1"
  shows "does be cpu ops (all_configs trials) (all_runs be ops trials)"
  unfolding all_configs_def all_runs_def
proof (intro does_each)
  fix size_p workload tc
  assume "size_p \<in> set payload_sizes"
  then have s: "size_p < MAX_VAL_LEN" by (auto simp: payload_sizes_def MAX_VAL_LEN_def)
  have "does be cpu ops (concat (map (\<lambda>trial.
       concat (map (\<lambda>shared. [(size_p, workload, tc, trial, shared)]) [True, False]))
       (trials_from (unat (1 :: u32)) trials)))
     (trial_loop (\<lambda>trial. each_loop (\<lambda>shared.
       run_config be ops (size_p, workload, tc, trial, shared)) [True, False]) trials 1)"
    by (intro does_trials max does_each does_config[OF ok s]) simp
  then show "does be cpu ops (concat (map (\<lambda>trial.
       concat (map (\<lambda>shared. [(size_p, workload, tc, trial, shared)]) [True, False]))
       (trials_from 1 trials)))
     (trial_loop (\<lambda>trial. each_loop (\<lambda>shared.
       run_config be ops (size_p, workload, tc, trial, shared)) [True, False]) trials 1)"
    by simp
qed

text \<open>Every measurement comes to an end, whether or not the sockets could be created.\<close>

lemma measure_returns: "measure be ops cfg n w \<noteq> None"
proof -
  obtain size_p workload tc trial shared where cfg: "cfg = (size_p, workload, tc, trial, shared)"
    by (rule prod_cases5)
  show ?thesis
  proof (cases rule: construct_cases[of "sockets_r be n" tc])
    case (thrown what h)
    then show ?thesis by (simp add: measure_def cfg Let_def split: prod.split)
  next
    case (made c h)
    then obtain h' where "shutdown_clients (sockets_r be n) c h = Some (\<lparr>clients = [], servers = []\<rparr>, h')"
      using shutdown_clients_returns[of c "sockets_r be n" h] by auto
    with made(1) show ?thesis by (simp add: measure_def cfg Let_def split: prod.split)
  qed
qed

lemma run_config_returns:
  "machine_ok be cpu \<Longrightarrow> \<exists>st'. run_config be ops cfg st = Some (Inr st')"
  using measure_returns[of be ops cfg "runs st" "bench_world st"]
  by (auto simp: run_config_def machine_ok_def split: sum.split)

lemma all_runs_endless:
  assumes "machine_ok be cpu"
  shows "all_runs be ops (- 1) st = None"
proof -
  have "\<exists>s'. each_loop (\<lambda>shared. run_config be ops (size_p, workload, tc, t, shared)) [True, False] s
      = Some (Inr s')" for size_p workload tc t s
  proof -
    obtain s1 where 1: "run_config be ops (size_p, workload, tc, t, True) s = Some (Inr s1)"
      using run_config_returns[OF assms] by blast
    obtain s2 where "run_config be ops (size_p, workload, tc, t, False) s1 = Some (Inr s2)"
      using run_config_returns[OF assms] by blast
    with 1 show ?thesis by simp
  qed
  then have "trial_loop (\<lambda>trial. each_loop (\<lambda>shared.
      run_config be ops (size_p, workload, tc, trial, shared)) [True, False]) (- 1) 1 st = None"
    for size_p workload tc by (rule trial_loop_endless)
  then show ?thesis by (simp add: all_runs_def payload_sizes_def workloads_def thread_counts_def)
qed

section \<open>The whole program\<close>

text \<open>A name this process has created can be unlinked.\<close>

definition unlink_works :: "bench_env \<Rightarrow> bool" where
  "unlink_works be \<longleftrightarrow>
     (\<forall>h. resource_name be \<in> set (created_names (resources_of h)) \<longrightarrow>
        fst (shm_unlink_r be h (resource_name be)) \<noteq> - 1)"

lemma opened_all_well:
  assumes "alone be" "locks_ok be"
    and o: "cache_open_shared be (Some empty_mapping) True nm w = (True, Some m, w1)" "map_created m"
  shows "all_well be \<lparr>bench_world = cout csv_header w1, runs = 0, failed = False\<rparr>"
proof -
  let ?r = "fresh_region CACHE_SHARED_MEMORY_SIZE CACHE_DEFAULT_CAPACITY"
  have "mem w1 = ?r" using o(2) by (cases rule: cache_open_shared_mapping[OF o(1)]) auto
  then show ?thesis
    using assms(1,2) fresh_region_wf[OF default_capacity_ok] fresh_region_abs[OF default_capacity_ok]
    by (simp add: all_well_def shared_ok_def CACHE_DEFAULT_CAPACITY_def)
qed

lemma benchmark_main_done:
  assumes args: "parse_args (tl argv) 2000 3 = Inr (ops, trials)" "trials \<noteq> - 1"
    and ok: "machine_ok be cpu" "alone be" "locks_ok be" "unlink_works be"
    and o: "cache_open_shared be (Some empty_mapping) True (Some (resource_name be))
        (snd (unlink_resource be (cerr (banner be cpu ops trials) w))) = (True, Some m, w1)" "map_created m"
  shows "\<exists>w' ms. benchmark_main be argv w = Some (Inr (0, w')) \<and>
    length ms = 48 * unat trials \<and> (\<forall>m\<in>set ms. failures m = 0) \<and>
    stdout_of (hist w') = stdout_of (hist w) @ csv_header @
      concat (map2 (csv_row be cpu ops) (all_configs trials) ms)"
proof -
  let ?w0 = "snd (unlink_resource be (cerr (banner be cpu ops trials) w))"
  let ?st = "\<lparr>bench_world = cout csv_header w1, runs = 0, failed = False\<rparr>"
  have s0: "stdout_of (hist ?w0) = stdout_of (hist w)" by (simp add: unlink_resource_def Let_def)
  have "stdout_of (hist (snd (snd (cache_open_shared be (Some empty_mapping) True (Some (resource_name be)) ?w0))))
      = stdout_of (hist ?w0)" by (rule stdout_open)
  then have s1: "stdout_of (hist w1) = stdout_of (hist w)" by (simp only: o(1) snd_conv s0)
  obtain st where st: "all_runs be ops trials ?st = Some (Inr st)" "all_well be st"
    "prints_rows be cpu ops (all_configs trials) ?st st"
    by (rule doesE[OF all_runs_do[OF ok(1) args(2)] opened_all_well[OF ok(2,3) o]])
  obtain m' w2 where c: "cache_close_shared be (Some m) (bench_world st) = (m', w2)" by fastforce
  have m0: "map_fd m \<noteq> - 1" by (rule cache_open_shared_mapping[OF o(1)]) auto
  have r1: "resources_of (hist w1) = adds_mapping m (chosen_name (Some (resource_name be))) (resources_of (hist ?w0))"
    using cache_open_shared_resources[OF o(1)] by simp
  have "resources_of (hist (bench_world st)) = resources_of (hist w1)"
    using st(3) by (simp add: prints_rows_def)
  from cache_close_shared_resources[OF this[unfolded r1] m0, of be] c o(2)
  have "resource_name be \<in> set (created_names (resources_of (hist w2)))" by simp
  with ok(4) have un: "fst (shm_unlink_r be (hist w2) (resource_name be)) \<noteq> - 1" by (simp add: unlink_works_def)
  have "stdout_of (hist (snd (cache_close_shared be (Some m) (bench_world st)))) = stdout_of (hist (bench_world st))"
    by (rule stdout_close)
  then have s2: "stdout_of (hist w2) = stdout_of (hist (bench_world st))" by (simp only: c snd_conv)
  obtain rc0 v0 where u0: "unlink_resource be (cerr (banner be cpu ops trials) w) = (rc0, v0)" by fastforce
  obtain rc v where u: "unlink_resource be w2 = (rc, v)" by fastforce
  have rc: "rc \<noteq> - 1" using un u by (simp add: unlink_resource_def Let_def)
  have main: "benchmark_main be argv w = Some (Inr (0, snd (unlink_resource be w2)))"
  proof -
    have "cpu_model (cpuinfo be) = Inr cpu" "\<not> failed st"
      using ok(1) st(2) by (simp_all add: machine_ok_def all_well_def)
    note calls = this(1) u0 o(1)[unfolded u0 snd_conv] st(1) c u
    show ?thesis
      unfolding benchmark_main_def args(1) sum.case prod.case calls Let_def option.case not_True_eq_False if_False
        snd_conv
      using rc \<open>\<not> failed st\<close> by (simp only: if_False)
  qed
  from st(3) obtain ms where "length ms = length (all_configs trials)" "\<forall>m\<in>set ms. failures m = 0"
    "stdout_of (hist (bench_world st)) = stdout_of (hist w) @ csv_header @
       concat (map2 (csv_row be cpu ops) (all_configs trials) ms)"
    by (auto simp: prints_rows_def s1)
  with main s2 show ?thesis
    by (intro exI[of _ "snd (unlink_resource be w2)"] exI[of _ ms])
      (simp add: length_all_configs unlink_resource_def Let_def)
qed

lemma benchmark_main_endless:
  assumes args: "parse_args (tl argv) 2000 3 = Inr (ops, - 1)" and ok: "machine_ok be cpu"
    and o: "cache_open_shared be (Some empty_mapping) True (Some (resource_name be))
        (snd (unlink_resource be (cerr (banner be cpu ops (- 1)) w))) = (True, m, w1)"
  shows "benchmark_main be argv w = None"
proof -
  obtain rc0 v0 where u0: "unlink_resource be (cerr (banner be cpu ops (- 1)) w) = (rc0, v0)" by fastforce
  have cpu: "cpu_model (cpuinfo be) = Inr cpu" using ok by (simp add: machine_ok_def)
  show ?thesis
    unfolding benchmark_main_def args sum.case prod.case cpu u0 o[unfolded u0 snd_conv] Let_def
      not_True_eq_False if_False all_runs_endless[OF ok] option.case ..
qed

end
