(* ===== verification/Barrier.thy ===== *)
theory Barrier
  imports Benchmark
begin

text \<open>
  The threads of \<open>run_measurement\<close> in \<open>bench/benchmark_measurement.cpp\<close>: the main thread starts the
  workers, waits until all are ready, reads the clock, lets them go and joins them.  The mutex makes
  every block that holds it one step; a thread that waits for the condition sleeps until it is
  notified or wakes up by itself, and then looks at its predicate again.  What is shown is that the
  clock is read around exactly the measured operations and that no wake-up is lost.
\<close>

section \<open>The threads\<close>

text \<open>
  The main thread: starting worker \<open>i\<close>, evaluating \<open>ready_count == thread_count\<close>, asleep in its
  wait, past the wait, past the first reading of the clock, past setting \<open>start\<close>, joining worker
  \<open>i\<close>, done, or leaving with an exception because worker \<open>i\<close> could not be started.
\<close>

datatype main_place =
    Spawning nat | Asking | Sleeping | Timing | Releasing | Announcing | Joining nat | Ended
  | Throwing nat

text \<open>
  A worker: not started, before its first block, asleep in its wait, woken up, about to do operation
  \<open>k\<close>, or at its end.
\<close>

datatype worker_place = Unborn | Arriving | Asleep | Awake | Running nat | Finished

datatype moment = Begin | Operation nat nat | End

text \<open>The log holds the readings of the clock and the measured operations, the latest first.\<close>

record threads =
  main_at :: main_place
  worker_at :: "nat \<Rightarrow> worker_place"
  ready_count :: u32
  start_flag :: bool
  log_of :: "moment list"

text \<open>\<open>notify_all\<close>: who sleeps wakes up.\<close>

definition woken :: "worker_place \<Rightarrow> worker_place" where
  "woken p = (if p = Asleep then Awake else p)"

definition notify_all :: "threads \<Rightarrow> threads" where
  "notify_all s = s\<lparr>main_at := if main_at s = Sleeping then Asking else main_at s,
     worker_at := \<lambda>w. woken (worker_at s w)\<rparr>"

definition put_worker :: "nat \<Rightarrow> worker_place \<Rightarrow> threads \<Rightarrow> threads" where
  "put_worker w p s = s\<lparr>worker_at := (worker_at s)(w := p)\<rparr>"

text \<open>Evaluating \<open>start\<close> with the mutex held: go on or sleep.\<close>

definition pass_start :: "nat \<Rightarrow> threads \<Rightarrow> threads" where
  "pass_start w s = put_worker w (if start_flag s then Running 0 else Asleep) s"

inductive advance :: "u32 \<Rightarrow> u32 \<Rightarrow> threads \<Rightarrow> threads \<Rightarrow> bool" for tc n where
  spawn: "main_at s = Spawning i \<Longrightarrow> i < unat tc \<Longrightarrow>
    advance tc n s (put_worker i Arriving (s\<lparr>main_at := Spawning (i + 1)\<rparr>))"
| spawned: "main_at s = Spawning i \<Longrightarrow> i = unat tc \<Longrightarrow> advance tc n s (s\<lparr>main_at := Asking\<rparr>)"
| ask: "main_at s = Asking \<Longrightarrow>
    advance tc n s (s\<lparr>main_at := if ready_count s = tc then Timing else Sleeping\<rparr>)"
| begins: "main_at s = Timing \<Longrightarrow>
    advance tc n s (s\<lparr>main_at := Releasing, log_of := Begin # log_of s\<rparr>)"
| release: "main_at s = Releasing \<Longrightarrow> advance tc n s (s\<lparr>main_at := Announcing, start_flag := True\<rparr>)"
| announce: "main_at s = Announcing \<Longrightarrow> advance tc n s (notify_all (s\<lparr>main_at := Joining 0\<rparr>))"
| join: "main_at s = Joining i \<Longrightarrow> i < unat tc \<Longrightarrow> worker_at s i = Finished \<Longrightarrow>
    advance tc n s (s\<lparr>main_at := Joining (i + 1)\<rparr>)"
| joined: "main_at s = Joining i \<Longrightarrow> i = unat tc \<Longrightarrow>
    advance tc n s (s\<lparr>main_at := Ended, log_of := End # log_of s\<rparr>)"
| arrive: "worker_at s w = Arriving \<Longrightarrow>
    advance tc n s (pass_start w (notify_all (s\<lparr>ready_count := ready_count s + 1\<rparr>)))"
| recheck: "worker_at s w = Awake \<Longrightarrow> advance tc n s (pass_start w s)"
| operate: "worker_at s w = Running k \<Longrightarrow> k < unat n \<Longrightarrow>
    advance tc n s (put_worker w (Running (k + 1)) (s\<lparr>log_of := Operation w k # log_of s\<rparr>))"
| finish: "worker_at s w = Running k \<Longrightarrow> k = unat n \<Longrightarrow> advance tc n s (put_worker w Finished s)"

text \<open>Besides, a sleeper may wake up by itself, and a thread may fail to start.\<close>

inductive move_on :: "u32 \<Rightarrow> u32 \<Rightarrow> threads \<Rightarrow> threads \<Rightarrow> bool" for tc n where
  advances: "advance tc n s s' \<Longrightarrow> move_on tc n s s'"
| stirs: "worker_at s w = Asleep \<Longrightarrow> move_on tc n s (put_worker w Awake s)"
| main_stirs: "main_at s = Sleeping \<Longrightarrow> move_on tc n s (s\<lparr>main_at := Asking\<rparr>)"
| throws: "main_at s = Spawning i \<Longrightarrow> i < unat tc \<Longrightarrow> move_on tc n s (s\<lparr>main_at := Throwing i\<rparr>)"

definition at_first :: threads where
  "at_first = \<lparr>main_at = Spawning 0, worker_at = \<lambda>w. Unborn, ready_count = 0, start_flag = False,
     log_of = []\<rparr>"

inductive can_be :: "u32 \<Rightarrow> u32 \<Rightarrow> threads \<Rightarrow> bool" for tc n where
  first: "can_be tc n at_first"
| later: "can_be tc n s \<Longrightarrow> move_on tc n s s' \<Longrightarrow> can_be tc n s'"

section \<open>The invariant\<close>

text \<open>How many workers are started.\<close>

fun born :: "nat \<Rightarrow> main_place \<Rightarrow> nat" where
  "born N (Spawning i) = i"
| "born N (Throwing i) = i"
| "born N p = N"

definition workers_inv :: "u32 \<Rightarrow> threads \<Rightarrow> bool" where
  "workers_inv tc s \<longleftrightarrow> born (unat tc) (main_at s) \<le> unat tc \<and>
     (\<forall>w. worker_at s w = Unborn \<longleftrightarrow> born (unat tc) (main_at s) \<le> w)"

text \<open>Those that have been counted.\<close>

definition counted :: "threads \<Rightarrow> nat set" where
  "counted s = {w. worker_at s w \<noteq> Unborn \<and> worker_at s w \<noteq> Arriving}"

definition count_inv :: "u32 \<Rightarrow> threads \<Rightarrow> bool" where
  "count_inv tc s \<longleftrightarrow> unat (ready_count s) = card (counted s) \<and>
     (main_at s \<in> {Timing, Releasing, Announcing, Ended} \<or> (\<exists>i. main_at s = Joining i) \<longrightarrow> ready_count s = tc) \<and>
     (main_at s = Sleeping \<longrightarrow> ready_count s \<noteq> tc)"

definition flag_inv :: "threads \<Rightarrow> bool" where
  "flag_inv s \<longleftrightarrow>
     (start_flag s \<longleftrightarrow> main_at s \<in> {Announcing, Ended} \<or> (\<exists>i. main_at s = Joining i)) \<and>
     (\<not> start_flag s \<longrightarrow> (\<forall>w k. worker_at s w \<noteq> Running k \<and> worker_at s w \<noteq> Finished)) \<and>
     (main_at s = Ended \<or> (\<exists>i. main_at s = Joining i) \<longrightarrow> (\<forall>w. worker_at s w \<noteq> Asleep))"

definition join_inv :: "u32 \<Rightarrow> threads \<Rightarrow> bool" where
  "join_inv tc s \<longleftrightarrow>
     (\<forall>i. main_at s = Joining i \<longrightarrow> i \<le> unat tc \<and> (\<forall>w<i. worker_at s w = Finished)) \<and>
     (main_at s = Ended \<longrightarrow> (\<forall>w<unat tc. worker_at s w = Finished))"

fun ops_of :: "moment list \<Rightarrow> (nat \<times> nat) list" where
  "ops_of [] = []"
| "ops_of (Operation w k # l) = (w, k) # ops_of l"
| "ops_of (_ # l) = ops_of l"

text \<open>The operations of one worker, in the order in which they were done.\<close>

definition done_by :: "nat \<Rightarrow> moment list \<Rightarrow> nat list" where
  "done_by w l = map snd (filter (\<lambda>x. fst x = w) (rev (ops_of l)))"

fun did :: "nat \<Rightarrow> worker_place \<Rightarrow> nat" where
  "did n (Running k) = k"
| "did n Finished = n"
| "did n _ = 0"

text \<open>A worker has done its operations in order, as far as it has come.\<close>

definition order_inv :: "u32 \<Rightarrow> threads \<Rightarrow> bool" where
  "order_inv n s \<longleftrightarrow>
     (\<forall>w. done_by w (log_of s) = [0..<did (unat n) (worker_at s w)]) \<and>
     (\<forall>w k. worker_at s w = Running k \<longrightarrow> k \<le> unat n)"

definition operations_only :: "moment list \<Rightarrow> moment list" where
  "operations_only l = map (\<lambda>(w, k). Operation w k) (ops_of l)"

text \<open>Where the clock has been read.\<close>

definition clock_inv :: "threads \<Rightarrow> bool" where
  "clock_inv s \<longleftrightarrow> log_of s =
     (if main_at s = Ended then [End] else []) @ operations_only (log_of s) @
     (if start_flag s \<or> main_at s = Releasing then [Begin] else []) \<and>
     (\<not> start_flag s \<longrightarrow> ops_of (log_of s) = [])"

section \<open>The invariant is kept\<close>

lemma woken_simps [simp]:
  "woken p \<noteq> Asleep" "woken p = Unborn \<longleftrightarrow> p = Unborn" "woken p = Arriving \<longleftrightarrow> p = Arriving"
  "woken p = Running k \<longleftrightarrow> p = Running k" "woken p = Finished \<longleftrightarrow> p = Finished" "did n (woken p) = did n p"
  by (cases p; simp add: woken_def)+

lemma put_worker_simps [simp]:
  "main_at (put_worker w p s) = main_at s" "worker_at (put_worker w p s) = (worker_at s)(w := p)"
  "ready_count (put_worker w p s) = ready_count s" "start_flag (put_worker w p s) = start_flag s"
  "log_of (put_worker w p s) = log_of s"
  by (simp_all add: put_worker_def)

lemma notify_all_simps [simp]:
  "main_at (notify_all s) = (if main_at s = Sleeping then Asking else main_at s)"
  "worker_at (notify_all s) = (\<lambda>w. woken (worker_at s w))" "ready_count (notify_all s) = ready_count s"
  "start_flag (notify_all s) = start_flag s" "log_of (notify_all s) = log_of s"
  by (simp_all add: notify_all_def)

lemma pass_start_simps [simp]:
  "main_at (pass_start w s) = main_at s"
  "worker_at (pass_start w s) = (worker_at s)(w := if start_flag s then Running 0 else Asleep)"
  "ready_count (pass_start w s) = ready_count s" "start_flag (pass_start w s) = start_flag s"
  "log_of (pass_start w s) = log_of s"
  by (simp_all add: pass_start_def)

lemma born_awake [simp]: "born N (if p = Sleeping then Asking else p) = born N p"
  by simp

lemma workers_invD:
  "workers_inv tc s \<Longrightarrow> worker_at s w = Unborn \<longleftrightarrow> born (unat tc) (main_at s) \<le> w"
  by (simp add: workers_inv_def)

lemma workers_inv_upd:
  assumes "workers_inv tc s" "born (unat tc) (main_at s') = born (unat tc) (main_at s)"
    and "\<And>v. worker_at s' v = Unborn \<longleftrightarrow> worker_at s v = Unborn"
  shows "workers_inv tc s'"
  using assms by (simp add: workers_inv_def)

lemma workers_inv_advance: "advance tc n s s' \<Longrightarrow> workers_inv tc s \<Longrightarrow> workers_inv tc s'"
proof (induction rule: advance.induct)
  case (spawn s i)
  have "(worker_at s)(i := Arriving) = (\<lambda>w. if w = i then Arriving else worker_at s w)" by auto
  with spawn show ?case unfolding workers_inv_def by simp (metis Suc_leD le_antisym not_less_eq_eq)
qed (erule workers_inv_upd; simp)+

lemma counted_cong:
  assumes "\<And>v. (worker_at s' v \<noteq> Unborn \<and> worker_at s' v \<noteq> Arriving) = (worker_at s v \<noteq> Unborn \<and> worker_at s v \<noteq> Arriving)"
  shows "counted s' = counted s"
  using assms by (simp add: counted_def)

lemma counted_bound:
  assumes "workers_inv tc s"
  shows "counted s \<subseteq> {..<unat tc}" "finite (counted s)"
proof -
  have "w < unat tc" if "w \<in> counted s" for w
  proof -
    have "worker_at s w \<noteq> Unborn" using that by (simp add: counted_def)
    then have "w < born (unat tc) (main_at s)" using workers_invD[OF assms, of w] by simp
    also have "\<dots> \<le> unat tc" using assms by (simp add: workers_inv_def)
    finally show ?thesis .
  qed
  then show "counted s \<subseteq> {..<unat tc}" by auto
  then show "finite (counted s)" by (rule finite_subset) simp
qed

lemma arriving_uncounted:
  assumes "workers_inv tc s" "worker_at s w = Arriving"
  shows "card (counted s) < unat tc" "w \<notin> counted s"
proof -
  show w: "w \<notin> counted s" using assms(2) by (simp add: counted_def)
  have "worker_at s w \<noteq> Unborn" using assms(2) by simp
  then have "w < unat tc" using workers_invD[OF assms(1), of w] assms(1) by (simp add: workers_inv_def)
  then have "counted s \<subset> {..<unat tc}" using counted_bound(1)[OF assms(1)] w by auto
  from psubset_card_mono[OF _ this] show "card (counted s) < unat tc" by simp
qed

lemma count_inv_upd:
  assumes "count_inv tc s" "main_at s' = main_at s" "ready_count s' = ready_count s"
    and "\<And>v. (worker_at s' v \<noteq> Unborn \<and> worker_at s' v \<noteq> Arriving) = (worker_at s v \<noteq> Unborn \<and> worker_at s v \<noteq> Arriving)"
  shows "count_inv tc s'"
  using assms(1,2,3) counted_cong[OF assms(4)] by (simp add: count_inv_def)

lemma counted_frame [simp]:
  "counted (s\<lparr>main_at := m\<rparr>) = counted s" "counted (s\<lparr>start_flag := b\<rparr>) = counted s"
  "counted (s\<lparr>ready_count := c\<rparr>) = counted s" "counted (s\<lparr>log_of := l\<rparr>) = counted s"
  "counted (s\<lparr>main_at := m, log_of := l\<rparr>) = counted s"
  "counted (s\<lparr>main_at := m, start_flag := b\<rparr>) = counted s"
  "counted (notify_all s) = counted s"
  by (simp_all add: counted_def)

lemma count_inv_advance:
  "advance tc n s s' \<Longrightarrow> workers_inv tc s \<Longrightarrow> count_inv tc s \<Longrightarrow> count_inv tc s'"
proof (induction rule: advance.induct)
  case (spawn s i)
  have "worker_at s i = Unborn" using workers_invD[OF spawn.prems(1), of i] spawn.hyps by simp
  then have "counted (put_worker i Arriving (s\<lparr>main_at := Spawning (i + 1)\<rparr>)) = counted s"
    by (intro counted_cong) simp
  with spawn show ?case by (simp add: count_inv_def)
next
  case (arrive s w)
  let ?s = "pass_start w (notify_all (s\<lparr>ready_count := ready_count s + 1\<rparr>))"
  note u = arriving_uncounted[OF arrive.prems(1) arrive.hyps]
  have "counted ?s = insert w (counted s)" by (auto simp: counted_def)
  then have c: "card (counted ?s) = Suc (card (counted s))"
    using u(2) counted_bound(2)[OF arrive.prems(1)] by simp
  have r: "unat (ready_count s) = card (counted s)" using arrive.prems(2) by (simp add: count_inv_def)
  with u(1) have "unat (ready_count s) < unat tc" by simp
  then have "unat (ready_count s + 1) = Suc (unat (ready_count s))"
    by (metis unat_succ_less word_less_nat_alt word_not_simps(3) order_less_le_trans word_order.extremum)
  moreover have "ready_count s \<noteq> tc" using r u(1) by auto
  ultimately show ?case using arrive.prems(2) c r by (auto simp: count_inv_def)
next
  case (announce s)
  then show ?case by (auto simp: count_inv_def)
next
  case (recheck s w)
  show ?case by (rule count_inv_upd[OF recheck.prems(2)]) (use recheck.hyps in \<open>auto split: if_splits\<close>)
next
  case (operate s w k)
  show ?case by (rule count_inv_upd[OF operate.prems(2)]) (use operate.hyps in \<open>auto split: if_splits\<close>)
next
  case (finish s w k)
  show ?case by (rule count_inv_upd[OF finish.prems(2)]) (use finish.hyps in \<open>auto split: if_splits\<close>)
qed (auto simp: count_inv_def)

lemma flag_inv_advance: "advance tc n s s' \<Longrightarrow> flag_inv s \<Longrightarrow> flag_inv s'"
proof (induction rule: advance.induct)
  case (announce s)
  then show ?case by (simp add: flag_inv_def)
next
  case (operate s w k)
  then have "start_flag s" by (auto simp: flag_inv_def)
  with operate show ?case by (auto simp: flag_inv_def)
next
  case (finish s w k)
  then have "start_flag s" by (auto simp: flag_inv_def)
  with finish show ?case by (auto simp: flag_inv_def)
qed (auto simp: flag_inv_def)

lemma join_inv_advance: "advance tc n s s' \<Longrightarrow> join_inv tc s \<Longrightarrow> join_inv tc s'"
proof (induction rule: advance.induct)
  case (join s i)
  then show ?case by (auto simp: join_inv_def less_Suc_eq)
qed (auto simp: join_inv_def)

lemma done_by_simps [simp]:
  "done_by w [] = []" "done_by w (Begin # l) = done_by w l" "done_by w (End # l) = done_by w l"
  "done_by w (Operation v k # l) = (if v = w then done_by w l @ [k] else done_by w l)"
  by (simp_all add: done_by_def)

lemma order_inv_advance: "advance tc n s s' \<Longrightarrow> workers_inv tc s \<Longrightarrow> order_inv n s \<Longrightarrow> order_inv n s'"
proof (induction rule: advance.induct)
  case (spawn s i)
  have "worker_at s i = Unborn" using workers_invD[OF spawn.prems(1), of i] spawn.hyps by simp
  with spawn show ?case by (auto simp: order_inv_def)
next
  case (arrive s w)
  then show ?case by (auto simp: order_inv_def)
next
  case (recheck s w)
  then show ?case by (auto simp: order_inv_def)
next
  case (operate s w k)
  then show ?case by (auto simp: order_inv_def)
next
  case (finish s w k)
  then show ?case by (auto simp: order_inv_def)
qed (simp_all add: order_inv_def)

lemma operations_only_simps [simp]:
  "operations_only [] = []" "operations_only (Begin # l) = operations_only l"
  "operations_only (End # l) = operations_only l"
  "operations_only (Operation w k # l) = Operation w k # operations_only l"
  by (simp_all add: operations_only_def)

lemma ended_finished:
  assumes "workers_inv tc s" "join_inv tc s" "main_at s = Ended"
  shows "worker_at s w = (if w < unat tc then Finished else Unborn)"
  using assms workers_invD[OF assms(1), of w] by (simp add: join_inv_def)

lemma clock_inv_advance:
  "advance tc n s s' \<Longrightarrow> workers_inv tc s \<Longrightarrow> join_inv tc s \<Longrightarrow> flag_inv s \<Longrightarrow> clock_inv s \<Longrightarrow> clock_inv s'"
proof (induction rule: advance.induct)
  case (operate s w k)
  then have "start_flag s" by (auto simp: flag_inv_def)
  moreover have "main_at s \<noteq> Ended"
    using ended_finished[OF operate.prems(1,2), of w] operate.hyps(1) by (auto split: if_splits)
  ultimately show ?case using operate by (simp add: clock_inv_def)
next
  case (begins s)
  then have "ops_of (log_of s) = []" "log_of s = operations_only (log_of s)"
    by (auto simp: clock_inv_def flag_inv_def)
  then have "log_of s = []" by (simp add: operations_only_def)
  with begins show ?case by (auto simp: clock_inv_def flag_inv_def)
qed (auto simp: clock_inv_def flag_inv_def)

definition barrier_inv :: "u32 \<Rightarrow> u32 \<Rightarrow> threads \<Rightarrow> bool" where
  "barrier_inv tc n s \<longleftrightarrow> workers_inv tc s \<and> count_inv tc s \<and> flag_inv s \<and> join_inv tc s \<and>
     order_inv n s \<and> clock_inv s"

lemma barrier_inv_advance: "advance tc n s s' \<Longrightarrow> barrier_inv tc n s \<Longrightarrow> barrier_inv tc n s'"
  unfolding barrier_inv_def
  by (intro conjI; elim conjE)
    (rule workers_inv_advance count_inv_advance flag_inv_advance join_inv_advance order_inv_advance
      clock_inv_advance; assumption)+

lemma barrier_inv_move_on: "move_on tc n s s' \<Longrightarrow> barrier_inv tc n s \<Longrightarrow> barrier_inv tc n s'"
proof (induction rule: move_on.induct)
  case (advances s s')
  then show ?case by (rule barrier_inv_advance)
next
  case (stirs s w)
  have "workers_inv tc (put_worker w Awake s)"
    by (rule workers_inv_upd[of tc s]) (use stirs in \<open>simp_all add: barrier_inv_def\<close>)
  moreover have "count_inv tc (put_worker w Awake s)"
    by (rule count_inv_upd[of tc s]) (use stirs in \<open>simp_all add: barrier_inv_def\<close>)
  ultimately show ?case using stirs
    by (auto simp: barrier_inv_def flag_inv_def join_inv_def order_inv_def clock_inv_def)
next
  case (main_stirs s)
  then show ?case
    by (auto simp: barrier_inv_def workers_inv_def count_inv_def flag_inv_def join_inv_def order_inv_def clock_inv_def)
next
  case (throws s i)
  then show ?case
    by (auto simp: barrier_inv_def workers_inv_def count_inv_def flag_inv_def join_inv_def order_inv_def clock_inv_def)
qed

lemma can_be_inv: "can_be tc n s \<Longrightarrow> barrier_inv tc n s"
proof (induction rule: can_be.induct)
  case first
  then show ?case
    by (simp add: at_first_def barrier_inv_def workers_inv_def count_inv_def flag_inv_def join_inv_def
        order_inv_def clock_inv_def counted_def)
next
  case (later s s')
  then show ?case using barrier_inv_move_on by blast
qed

section \<open>Progress\<close>

text \<open>Every thread that may be waited for can move, unless the main thread has ended or thrown.\<close>

lemma worker_moves:
  assumes "barrier_inv tc n s" "worker_at s w \<noteq> Unborn" "worker_at s w \<noteq> Finished" "worker_at s w \<noteq> Asleep"
  shows "\<exists>s'. advance tc n s s'"
proof (cases "worker_at s w")
  case (Running k)
  then have "k \<le> unat n" using assms(1) by (auto simp: barrier_inv_def order_inv_def)
  then show ?thesis using operate[OF Running, of n tc] finish[OF Running, of n tc] by (cases "k < unat n") auto
qed (use assms in \<open>auto intro: advance.arrive advance.recheck\<close>)

lemma progress:
  assumes inv: "barrier_inv tc n s" and live: "main_at s \<noteq> Ended" "\<And>i. main_at s \<noteq> Throwing i"
  shows "\<exists>s'. advance tc n s s'"
proof (cases "main_at s")
  case (Spawning i)
  then have "i \<le> unat tc" using inv by (simp add: barrier_inv_def workers_inv_def)
  with spawn[OF Spawning, of tc n] spawned[OF Spawning, of tc n] show ?thesis
    by (cases "i = unat tc") auto
next
  case Sleeping
  then have "ready_count s \<noteq> tc" "unat (ready_count s) = card (counted s)" and wi: "workers_inv tc s"
    using inv by (auto simp: barrier_inv_def count_inv_def)
  then have "card (counted s) \<noteq> card {..<unat tc}" by (metis card_lessThan word_unat_eq_iff)
  then have "counted s \<noteq> {..<unat tc}" by metis
  then obtain w where "w < unat tc" "w \<notin> counted s" using counted_bound(1)[OF wi] by blast
  with workers_invD[OF wi, of w] Sleeping have "worker_at s w = Arriving" by (simp add: counted_def)
  with worker_moves[OF inv, of w] show ?thesis by simp
next
  case (Joining i)
  with inv have i: "i \<le> unat tc" and a: "worker_at s i \<noteq> Asleep" and w: "workers_inv tc s"
    by (auto simp: barrier_inv_def join_inv_def flag_inv_def)
  show ?thesis
  proof (cases "i = unat tc")
    case True
    then show ?thesis using joined[OF Joining, of tc n] by auto
  next
    case False
    with i workers_invD[OF w, of i] Joining have "worker_at s i \<noteq> Unborn" by simp
    with worker_moves[OF inv, of i] a join[OF Joining, of tc n] False i show ?thesis
      by (cases "worker_at s i = Finished") auto
  qed
qed (use live in \<open>auto intro: advance.intros\<close>)

section \<open>Termination\<close>

text \<open>
  What is left to do.  A notification can wake up every thread once more, so the blocks that notify
  count for more than that.
\<close>

fun worker_rank :: "nat \<Rightarrow> nat \<Rightarrow> worker_place \<Rightarrow> nat" where
  "worker_rank N n Unborn = N + n + 8"
| "worker_rank N n Arriving = N + n + 7"
| "worker_rank N n Awake = n + 3"
| "worker_rank N n Asleep = n + 2"
| "worker_rank N n (Running k) = n + 1 - k"
| "worker_rank N n Finished = 0"

fun main_rank :: "nat \<Rightarrow> main_place \<Rightarrow> nat" where
  "main_rank N (Spawning i) = 2 * N + 11 + (N - i)"
| "main_rank N Asking = 2 * N + 10"
| "main_rank N Sleeping = 2 * N + 9"
| "main_rank N Timing = 2 * N + 8"
| "main_rank N Releasing = 2 * N + 7"
| "main_rank N Announcing = 2 * N + 6"
| "main_rank N (Joining i) = N + 1 - i"
| "main_rank N Ended = 0"
| "main_rank N (Throwing i) = 0"

definition rank_of :: "u32 \<Rightarrow> u32 \<Rightarrow> threads \<Rightarrow> nat" where
  "rank_of tc n s = main_rank (unat tc) (main_at s) +
     (\<Sum>w<unat tc. worker_rank (unat tc) (unat n) (worker_at s w))"

lemma sum_upd_less:
  fixes g :: "'p \<Rightarrow> nat" and N :: nat
  assumes "w < N" "g v < g (f w)"
  shows "(\<Sum>i<N. g ((f(w := v)) i)) < (\<Sum>i<N. g (f i))"
  by (rule sum_strict_mono_ex1) (use assms in auto)

lemma sum_woken: "(\<Sum>i<M. worker_rank N n (woken (f i))) \<le> (\<Sum>i<M. worker_rank N n (f i)) + M"
proof -
  have "worker_rank N n (woken p) \<le> worker_rank N n p + 1" for p
    by (cases p) (simp_all add: woken_def)
  then have "(\<Sum>i<M. worker_rank N n (woken (f i))) \<le> (\<Sum>i<M. worker_rank N n (f i) + 1)"
    by (intro sum_mono)
  then show ?thesis by (simp only: sum.distrib) simp
qed

lemma sum_woken_upd:
  assumes "w < M" "worker_rank N n v + K \<le> worker_rank N n (f w)"
  shows "(\<Sum>i<M. worker_rank N n (((\<lambda>i. woken (f i))(w := v)) i)) + K \<le> (\<Sum>i<M. worker_rank N n (f i)) + M"
proof -
  have "worker_rank N n (woken p) \<le> worker_rank N n p + 1" for p
    by (cases p) (simp_all add: woken_def)
  then have "(\<Sum>i<M. worker_rank N n (((\<lambda>i. woken (f i))(w := v)) i) + (if i = w then K else 0))
      \<le> (\<Sum>i<M. worker_rank N n (f i) + 1)"
    using assms(2) by (intro sum_mono) (auto simp: le_SucI)
  moreover have "(\<Sum>i<M. if i = w then K else 0) = K" using assms(1) by simp
  ultimately show ?thesis by (simp only: sum.distrib) simp
qed

lemma active_worker: "workers_inv tc s \<Longrightarrow> worker_at s w \<noteq> Unborn \<Longrightarrow> w < unat tc"
  using workers_invD[of tc s w] by (simp add: workers_inv_def)

lemma rank_worker_less:
  assumes "workers_inv tc s" "worker_at s w \<noteq> Unborn" "main_at s' = main_at s"
    and "worker_at s' = (worker_at s)(w := p)"
    and "worker_rank (unat tc) (unat n) p < worker_rank (unat tc) (unat n) (worker_at s w)"
  shows "rank_of tc n s' < rank_of tc n s"
  using sum_upd_less[where g = "worker_rank (unat tc) (unat n)" and f = "worker_at s",
      OF active_worker[OF assms(1,2)] assms(5)] assms(3,4) by (simp add: rank_of_def)

lemma rank_main_less:
  assumes "worker_at s' = worker_at s" "main_rank (unat tc) (main_at s') < main_rank (unat tc) (main_at s)"
  shows "rank_of tc n s' < rank_of tc n s"
  using assms by (simp add: rank_of_def)

lemma advance_rank: "advance tc n s s' \<Longrightarrow> barrier_inv tc n s \<Longrightarrow> rank_of tc n s' < rank_of tc n s"
proof (induction rule: advance.induct)
  case (spawn s i)
  have "worker_at s i = Unborn"
    using workers_invD[of tc s i] spawn.hyps spawn.prems by (simp add: barrier_inv_def)
  then have "(\<Sum>w<unat tc. worker_rank (unat tc) (unat n) (((worker_at s)(i := Arriving)) w))
      < (\<Sum>w<unat tc. worker_rank (unat tc) (unat n) (worker_at s w))"
    using spawn.hyps(2) by (intro sum_upd_less) simp_all
  with spawn.hyps show ?case by (simp add: rank_of_def)
next
  case (announce s)
  have "main_rank (unat tc) (main_at (notify_all (s\<lparr>main_at := Joining 0\<rparr>))) + unat tc
      < main_rank (unat tc) (main_at s)" using announce.hyps by simp
  with sum_woken[of "unat tc" "unat n" "worker_at s" "unat tc"] show ?case by (simp add: rank_of_def)
next
  case (arrive s w)
  let ?v = "if start_flag s then Running 0 else Asleep"
  have w: "w < unat tc" using arrive active_worker[of tc s w] by (simp add: barrier_inv_def)
  have "worker_rank (unat tc) (unat n) ?v + (unat tc + 3) \<le> worker_rank (unat tc) (unat n) (worker_at s w)"
    using arrive.hyps by simp
  note sum_woken_upd[where f = "worker_at s", OF w this]
  moreover have "main_rank (unat tc) (if main_at s = Sleeping then Asking else main_at s)
      \<le> main_rank (unat tc) (main_at s) + 1" by simp
  ultimately show ?case by (simp add: rank_of_def)
next
  case (recheck s w)
  then show ?case
    by (intro rank_worker_less[of tc s w _ "if start_flag s then Running 0 else Asleep"])
      (simp_all add: barrier_inv_def)
next
  case (operate s w k)
  then show ?case by (intro rank_worker_less[of tc s w _ "Running (k + 1)"]) (simp_all add: barrier_inv_def)
next
  case (finish s w k)
  then show ?case by (intro rank_worker_less[of tc s w _ Finished]) (simp_all add: barrier_inv_def)
qed (rule rank_main_less; simp)+

lemma advance_bounded:
  assumes "(advance tc n ^^ m) s s'" "barrier_inv tc n s"
  shows "m + rank_of tc n s' \<le> rank_of tc n s \<and> barrier_inv tc n s'"
  using assms
proof (induction m arbitrary: s')
  case 0
  then show ?case by simp
next
  case (Suc m)
  then obtain t where t: "(advance tc n ^^ m) s t" "advance tc n t s'" by auto
  with Suc have "m + rank_of tc n t \<le> rank_of tc n s" "barrier_inv tc n t" by auto
  with advance_rank[OF t(2)] barrier_inv_advance[OF t(2)] show ?case by simp
qed

lemma advance_can_be: "(advance tc n)\<^sup>*\<^sup>* s s' \<Longrightarrow> can_be tc n s \<Longrightarrow> can_be tc n s'"
  by (induction rule: rtranclp_induct) (auto intro: can_be.later move_on.advances)

lemma advance_not_throwing:
  "(advance tc n)\<^sup>*\<^sup>* s s' \<Longrightarrow> (\<And>i. main_at s \<noteq> Throwing i) \<Longrightarrow> main_at s' \<noteq> Throwing i"
proof (induction arbitrary: i rule: rtranclp_induct)
  case (step t u)
  from step.hyps(2) step.IH[OF step.prems] show ?case
    by (cases rule: advance.cases) (auto split: if_splits)
qed simp

lemma barrier_stuck:
  assumes "(advance tc n)\<^sup>*\<^sup>* s s'" "can_be tc n s" "\<And>i. main_at s \<noteq> Throwing i" "\<And>t. \<not> advance tc n s' t"
  shows "main_at s' = Ended"
  using progress[OF can_be_inv[OF advance_can_be[OF assms(1,2)]]] advance_not_throwing[OF assms(1,3)] assms(4)
  by blast

section \<open>The log of a whole run\<close>

lemma length_by_worker:
  "\<forall>x\<in>set xs. fst x < M \<Longrightarrow> length xs = (\<Sum>w<M. length (filter (\<lambda>x. fst x = w) xs))"
  for xs :: "(nat \<times> nat) list"
proof (induction xs)
  case (Cons x xs)
  have "(\<Sum>w<M. length (filter (\<lambda>y. fst y = w) (x # xs)))
      = (\<Sum>w<M. length (filter (\<lambda>y. fst y = w) xs) + (if w = fst x then 1 else 0))"
    by (intro sum.cong) auto
  also have "\<dots> = (\<Sum>w<M. length (filter (\<lambda>y. fst y = w) xs)) + 1"
    using Cons.prems by (simp add: sum.distrib)
  finally show ?case using Cons by simp
qed simp

text \<open>The order of the measured operations that a log shows.\<close>

definition schedule_of :: "moment list \<Rightarrow> (nat \<times> nat) list" where
  "schedule_of l = rev (ops_of l)"

lemma ended_log:
  assumes "can_be tc n s" "main_at s = Ended"
  shows "rev (log_of s) = Begin # map (\<lambda>(w, k). Operation w k) (schedule_of (log_of s)) @ [End]"
    and "map snd (filter (\<lambda>x. fst x = w) (schedule_of (log_of s))) = (if w < unat tc then [0..<unat n] else [])"
proof -
  note inv = can_be_inv[OF assms(1), unfolded barrier_inv_def]
  have "start_flag s" using inv assms(2) by (simp add: flag_inv_def)
  then have "log_of s = End # operations_only (log_of s) @ [Begin]"
    using inv assms(2) by (simp add: clock_inv_def)
  then have "rev (log_of s) = rev (End # operations_only (log_of s) @ [Begin])" by (rule arg_cong)
  then show "rev (log_of s) = Begin # map (\<lambda>(w, k). Operation w k) (schedule_of (log_of s)) @ [End]"
    by (simp add: schedule_of_def rev_map operations_only_def)
  have "worker_at s w = (if w < unat tc then Finished else Unborn)"
    using inv assms(2) by (intro ended_finished) simp_all
  moreover have "done_by w (log_of s) = [0..<did (unat n) (worker_at s w)]"
    using inv by (simp add: order_inv_def)
  ultimately show "map snd (filter (\<lambda>x. fst x = w) (schedule_of (log_of s))) = (if w < unat tc then [0..<unat n] else [])"
    by (simp add: done_by_def schedule_of_def)
qed

lemma ended_schedule:
  assumes "can_be tc n s" "main_at s = Ended"
  shows "\<forall>x\<in>set (schedule_of (log_of s)). fst x < unat tc"
    and "length (schedule_of (log_of s)) = unat tc * unat n"
proof -
  let ?xs = "schedule_of (log_of s)"
  note by_worker = ended_log(2)[OF assms]
  show workers: "\<forall>x\<in>set ?xs. fst x < unat tc"
  proof
    fix x assume x: "x \<in> set ?xs"
    then have "filter (\<lambda>y. fst y = fst x) ?xs \<noteq> []" by (auto simp: filter_empty_conv)
    with by_worker[of "fst x"] show "fst x < unat tc" by (auto split: if_splits)
  qed
  have "length (filter (\<lambda>x. fst x = w) ?xs) = unat n" if "w < unat tc" for w
    using by_worker[of w] that by (metis length_map length_upt diff_zero)
  then show "length ?xs = unat tc * unat n"
    using length_by_worker[OF workers] by simp
qed

text \<open>No operation is measured before every worker is ready and the clock has been read.\<close>

lemma operation_after_ready:
  assumes "can_be tc n s" "Operation w k \<in> set (log_of s)"
  shows "ready_count s = tc" "Begin \<in> set (log_of s)"
proof -
  note inv = can_be_inv[OF assms(1), unfolded barrier_inv_def]
  have "(w, k) \<in> set (ops_of l)" if "Operation w k \<in> set l" for l
    using that by (induction l rule: ops_of.induct) auto
  with assms(2) have "ops_of (log_of s) \<noteq> []" by fastforce
  with inv have flag: "start_flag s" by (auto simp: clock_inv_def)
  with inv show "ready_count s = tc" by (auto simp: flag_inv_def count_inv_def)
  from inv have "log_of s = (if main_at s = Ended then [End] else []) @ operations_only (log_of s) @
     (if start_flag s \<or> main_at s = Releasing then [Begin] else [])" by (simp add: clock_inv_def)
  then have "log_of s = ((if main_at s = Ended then [End] else []) @ operations_only (log_of s)) @ [Begin]"
    using flag by simp
  then show "Begin \<in> set (log_of s)" by (metis in_set_conv_decomp)
qed

lemma some_end:
  assumes "can_be tc n s" "\<And>i. main_at s \<noteq> Throwing i"
  shows "\<exists>s'. (advance tc n)\<^sup>*\<^sup>* s s' \<and> main_at s' = Ended"
  using assms
proof (induction "rank_of tc n s" arbitrary: s rule: less_induct)
  case less
  show ?case
  proof (cases "main_at s = Ended")
    case True
    then show ?thesis by blast
  next
    case False
    from progress[OF can_be_inv[OF less.prems(1)] False less.prems(2)] obtain t where t: "advance tc n s t" by blast
    have "can_be tc n t" "\<And>i. main_at t \<noteq> Throwing i"
      using advance_can_be[of tc n s t] advance_not_throwing[of tc n s t] t less.prems by auto
    from less.hyps[OF advance_rank[OF t can_be_inv[OF less.prems(1)]] this] t
    show ?thesis by (meson converse_rtranclp_into_rtranclp)
  qed
qed

section \<open>A worker that cannot be started\<close>

text \<open>
  When worker \<open>i\<close> cannot be started, the exception leaves \<open>run_measurement\<close> while the workers
  before it wait for a start that never comes: they are still joinable when their \<open>std::thread\<close>
  objects are destroyed.
\<close>

lemma thrown_workers_wait:
  assumes "can_be tc n s" "main_at s = Throwing i" "w < i"
  shows "worker_at s w \<in> {Arriving, Asleep, Awake}"
proof -
  note inv = can_be_inv[OF assms(1), unfolded barrier_inv_def]
  from inv assms(2) have "\<not> start_flag s" by (simp add: flag_inv_def)
  with inv have "\<forall>k. worker_at s w \<noteq> Running k \<and> worker_at s w \<noteq> Finished" by (simp add: flag_inv_def)
  moreover have "worker_at s w \<noteq> Unborn" using workers_invD[of tc s w] inv assms(2,3) by simp
  ultimately show ?thesis by (cases "worker_at s w") auto
qed

lemma thrown_stays: "move_on tc n s s' \<Longrightarrow> main_at s = Throwing i \<Longrightarrow> main_at s' = Throwing i"
  by (induction rule: move_on.induct) (auto elim: advance.cases)

end
