(* ===== verification/Legacy.thy ===== *)
theory Legacy
  imports Prelude
begin

text \<open>
  The first version of the shared memory layer, \<open>legacy/shared_memory.cpp\<close>: the class
  \<open>SharedMemoryManager\<close>, which maps a named object and guards it with a named semaphore.  The
  operating system answers as a function of the history of calls, the latest call first.
\<close>

section \<open>State and system calls\<close>

datatype call =
    Shm_open string bool int         \<comment> \<open>name, whether \<open>O_CREAT\<close>, descriptor\<close>
  | Truncate int int                 \<comment> \<open>descriptor, result\<close>
  | Map int "nat option"             \<comment> \<open>descriptor, address or \<open>MAP_FAILED\<close>\<close>
  | Sem_open string bool "nat option" \<comment> \<open>name, whether \<open>O_CREAT\<close>, semaphore or \<open>SEM_FAILED\<close>\<close>
  | Sem_wait int
  | Sem_post int
  | Unmap nat
  | Close_fd int
  | Sem_close nat
  | Unlink_shm string
  | Unlink_sem string

type_synonym calls = "call list"

record legacy_env =
  shm_open_r :: "calls \<Rightarrow> int"
  truncate_r :: "calls \<Rightarrow> int"
  map_r :: "calls \<Rightarrow> nat option"
  sem_open_r :: "calls \<Rightarrow> nat option"
  sem_wait_r :: "calls \<Rightarrow> int \<times> bool"
  sem_post_r :: "calls \<Rightarrow> int"

text \<open>
  The members; \<open>nullptr\<close> is \<open>None\<close>.  The code never keeps \<open>MAP_FAILED\<close> or \<open>SEM_FAILED\<close> in a
  member: it replaces them by \<open>nullptr\<close> at once.
\<close>

record SharedMemoryManager =
  shm_name :: string
  sem_name :: string
  shm_size :: nat
  shm_fd :: int
  mapped_ptr :: "nat option"
  semaphore :: "nat option"
  is_owner :: bool

definition new_manager :: "string \<Rightarrow> string \<Rightarrow> nat \<Rightarrow> SharedMemoryManager" where
  "new_manager shm_n sem_n sz =
     \<lparr>shm_name = shm_n, sem_name = sem_n, shm_size = sz, shm_fd = - 1, mapped_ptr = None,
      semaphore = None, is_owner = False\<rparr>"

section \<open>Operations\<close>

definition cleanup :: "SharedMemoryManager \<Rightarrow> calls \<Rightarrow> SharedMemoryManager \<times> calls" where
  "cleanup m h =
     (let h = (case mapped_ptr m of None \<Rightarrow> h | Some p \<Rightarrow> Unmap p # h);
          m = m\<lparr>mapped_ptr := None\<rparr>;
          h = (if shm_fd m \<noteq> - 1 then Close_fd (shm_fd m) # h else h);
          m = m\<lparr>shm_fd := - 1\<rparr>;
          h = (case semaphore m of None \<Rightarrow> h | Some s \<Rightarrow> Sem_close s # h);
          m = m\<lparr>semaphore := None\<rparr>;
          h = (if is_owner m then Unlink_sem (sem_name m) # Unlink_shm (shm_name m) # h else h)
      in (m, h))"

definition init_as_server ::
  "'a legacy_env_scheme \<Rightarrow> SharedMemoryManager \<Rightarrow> calls \<Rightarrow> bool \<times> SharedMemoryManager \<times> calls"
  where
  "init_as_server env m h =
     (let m = m\<lparr>is_owner := True\<rparr>;
          fd = shm_open_r env h; h = Shm_open (shm_name m) True fd # h; m = m\<lparr>shm_fd := fd\<rparr>
      in if fd = - 1 then (False, m, h)
      else let rc = truncate_r env h; h = Truncate fd rc # h
      in if rc = - 1 then (False, cleanup m h)
      else let p = map_r env h; h = Map fd p # h; m = m\<lparr>mapped_ptr := p\<rparr>
      in if p = None then (False, cleanup m h)
      else let s = sem_open_r env h; h = Sem_open (sem_name m) True s # h; m = m\<lparr>semaphore := s\<rparr>
      in if s = None then (False, cleanup m h) else (True, m, h))"

definition attach_as_client ::
  "'a legacy_env_scheme \<Rightarrow> SharedMemoryManager \<Rightarrow> calls \<Rightarrow> bool \<times> SharedMemoryManager \<times> calls"
  where
  "attach_as_client env m h =
     (let m = m\<lparr>is_owner := False\<rparr>;
          fd = shm_open_r env h; h = Shm_open (shm_name m) False fd # h; m = m\<lparr>shm_fd := fd\<rparr>
      in if fd = - 1 then (False, m, h)
      else let p = map_r env h; h = Map fd p # h; m = m\<lparr>mapped_ptr := p\<rparr>
      in if p = None then (False, cleanup m h)
      else let s = sem_open_r env h; h = Sem_open (sem_name m) False s # h; m = m\<lparr>semaphore := s\<rparr>
      in if s = None then (False, cleanup m h) else (True, m, h))"

text \<open>The waiting loop of \<open>lock\<close>; it does not return as long as it is interrupted.\<close>

partial_function (option) wait_loop ::
  "'a legacy_env_scheme \<Rightarrow> calls \<Rightarrow> (bool \<times> calls) option" where
  "wait_loop env h =
     (if fst (sem_wait_r env h) = - 1 then
        (if snd (sem_wait_r env h) then wait_loop env (Sem_wait (- 1) # h)
         else Some (False, Sem_wait (- 1) # h))
      else Some (True, Sem_wait (fst (sem_wait_r env h)) # h))"

definition sem_lock ::
  "'a legacy_env_scheme \<Rightarrow> SharedMemoryManager \<Rightarrow> calls \<Rightarrow> (bool \<times> calls) option" where
  "sem_lock env m h = (if semaphore m = None then Some (False, h) else wait_loop env h)"

definition sem_unlock ::
  "'a legacy_env_scheme \<Rightarrow> SharedMemoryManager \<Rightarrow> calls \<Rightarrow> bool \<times> calls" where
  "sem_unlock env m h =
     (if semaphore m = None then (False, h)
      else let rc = sem_post_r env h in (rc = 0, Sem_post rc # h))"

definition get_base_ptr :: "SharedMemoryManager \<Rightarrow> nat option" where
  "get_base_ptr m = mapped_ptr m"

section \<open>What a process holds\<close>

record holdings =
  fds :: "int list"
  maps :: "nat list"
  sems :: "nat list"

fun hold :: "call \<Rightarrow> holdings \<Rightarrow> holdings" where
  "hold (Shm_open n c fd) s = (if fd = - 1 then s else s\<lparr>fds := fd # fds s\<rparr>)"
| "hold (Map fd (Some p)) s = s\<lparr>maps := p # maps s\<rparr>"
| "hold (Sem_open n c (Some x)) s = s\<lparr>sems := x # sems s\<rparr>"
| "hold (Unmap p) s = s\<lparr>maps := remove1 p (maps s)\<rparr>"
| "hold (Close_fd fd) s = s\<lparr>fds := remove1 fd (fds s)\<rparr>"
| "hold (Sem_close x) s = s\<lparr>sems := remove1 x (sems s)\<rparr>"
| "hold _ s = s"

fun held_after :: "holdings \<Rightarrow> calls \<Rightarrow> holdings" where
  "held_after s [] = s"
| "held_after s (c # h) = hold c (held_after s h)"

text \<open>A manager's members are its holdings on top of \<open>s\<close>.\<close>

definition manages :: "SharedMemoryManager \<Rightarrow> holdings \<Rightarrow> holdings" where
  "manages m s =
     s\<lparr>fds := (if shm_fd m = - 1 then fds s else shm_fd m # fds s),
       maps := (case mapped_ptr m of None \<Rightarrow> maps s | Some p \<Rightarrow> p # maps s),
       sems := (case semaphore m of None \<Rightarrow> sems s | Some x \<Rightarrow> x # sems s)\<rparr>"

lemma cleanup_holdings:
  assumes "held_after s0 h = manages m s"
  shows "held_after s0 (snd (cleanup m h)) = s"
  using assms by (auto simp: cleanup_def manages_def Let_def split: option.split)

lemma cleanup_manages:
  "manages (fst (cleanup m h)) s = s" "shm_name (fst (cleanup m h)) = shm_name m"
  by (simp_all add: cleanup_def manages_def Let_def)

lemma init_as_server_holdings:
  assumes h: "held_after s0 h = manages m s" and m: "shm_fd m = - 1" "mapped_ptr m = None" "semaphore m = None"
  shows "case init_as_server env m h of (ok, m', h') \<Rightarrow>
     held_after s0 h' = manages m' s \<and> (\<not> ok \<longrightarrow> manages m' s = s)"
  using assms
  by (auto simp: init_as_server_def cleanup_def manages_def Let_def split: option.split)

lemma attach_as_client_holdings:
  assumes h: "held_after s0 h = manages m s" and m: "shm_fd m = - 1" "mapped_ptr m = None" "semaphore m = None"
  shows "case attach_as_client env m h of (ok, m', h') \<Rightarrow>
     held_after s0 h' = manages m' s \<and> (\<not> ok \<longrightarrow> manages m' s = s)"
  using assms
  by (auto simp: attach_as_client_def cleanup_def manages_def Let_def split: option.split)

section \<open>The waiting loop\<close>

text \<open>\<open>n\<close> interrupted waits on top of a history.\<close>

definition interrupted :: "nat \<Rightarrow> calls \<Rightarrow> calls" where
  "interrupted n h = replicate n (Sem_wait (- 1)) @ h"

lemma interrupted_Suc: "interrupted (Suc n) h = interrupted n (Sem_wait (- 1) # h)"
  by (simp add: interrupted_def replicate_app_Cons_same)

lemma wait_loop_interrupted:
  assumes "\<And>i. i < n \<Longrightarrow> sem_wait_r env (interrupted i h) = (- 1, True)"
  shows "wait_loop env h = wait_loop env (interrupted n h)"
  using assms
proof (induction n arbitrary: h)
  case 0
  then show ?case by (simp add: interrupted_def)
next
  case (Suc n)
  have "sem_wait_r env h = (- 1, True)" using Suc.prems[of 0] by (simp add: interrupted_def)
  then have "wait_loop env h = wait_loop env (Sem_wait (- 1) # h)"
    by (subst wait_loop.simps) simp
  also have "\<dots> = wait_loop env (interrupted n (Sem_wait (- 1) # h))"
    using Suc.prems[of "Suc i" for i] by (intro Suc.IH) (simp add: interrupted_Suc)
  finally show ?case by (simp add: interrupted_Suc)
qed

lemma wait_loop_returns:
  assumes "\<And>i. i < n \<Longrightarrow> sem_wait_r env (interrupted i h) = (- 1, True)"
    and "sem_wait_r env (interrupted n h) = (rc, intr)" "rc \<noteq> - 1 \<or> \<not> intr"
  shows "wait_loop env h = Some (rc \<noteq> - 1, Sem_wait rc # interrupted n h)"
  using wait_loop_interrupted[of n env h] assms by (subst (asm) (2) wait_loop.simps) auto

text \<open>Conversely, a loop that returns has met a wait that was not interrupted.\<close>

lemma wait_loop_returned:
  assumes "wait_loop env h = Some r"
  shows "\<exists>n. sem_wait_r env (interrupted n h) \<noteq> (- 1, True)"
proof (rule wait_loop.raw_induct[of "\<lambda>env h r. \<exists>n. sem_wait_r env (interrupted n h) \<noteq> (- 1, True)",
    OF _ assms])
  fix loop :: "'a legacy_env_scheme \<Rightarrow> calls \<Rightarrow> (bool \<times> calls) option" and env h r
  assume IH: "\<And>env h r. loop env h = Some r \<Longrightarrow>
      \<exists>n. sem_wait_r env (interrupted n h) \<noteq> (- 1, True)"
    and r: "(if fst (sem_wait_r env h) = - 1 then
        (if snd (sem_wait_r env h) then loop env (Sem_wait (- 1) # h)
         else Some (False, Sem_wait (- 1) # h))
      else Some (True, Sem_wait (fst (sem_wait_r env h)) # h)) = Some r"
  show "\<exists>n. sem_wait_r env (interrupted n h) \<noteq> (- 1, True)"
  proof (cases "sem_wait_r env h = (- 1, True)")
    case True
    with r have "loop env (Sem_wait (- 1) # h) = Some r" by simp
    from IH[OF this] obtain n where
      "sem_wait_r env (interrupted (Suc n) h) \<noteq> (- 1, True)" by (auto simp: interrupted_Suc)
    then show ?thesis ..
  next
    case False
    then have "sem_wait_r env (interrupted 0 h) \<noteq> (- 1, True)" by (simp add: interrupted_def)
    then show ?thesis ..
  qed
qed

lemma wait_loop_iff:
  "(\<exists>r. wait_loop env h = Some r) \<longleftrightarrow> (\<exists>n. sem_wait_r env (interrupted n h) \<noteq> (- 1, True))"
proof
  let ?stops = "\<lambda>n. sem_wait_r env (interrupted n h) \<noteq> (- 1, True)"
  assume "\<exists>n. ?stops n"
  then have n: "?stops (LEAST n. ?stops n)" by (rule LeastI_ex)
  have least: "sem_wait_r env (interrupted i h) = (- 1, True)" if "i < (LEAST n. ?stops n)" for i
    using not_less_Least[OF that] by simp
  obtain rc intr where "sem_wait_r env (interrupted (LEAST n. ?stops n) h) = (rc, intr)" by fastforce
  with wait_loop_returns[OF least this] n show "\<exists>r. wait_loop env h = Some r" by auto
qed (auto dest: wait_loop_returned)

section \<open>Names\<close>

text \<open>
  A manager becomes the owner of the names before it has opened anything: a server that fails to
  open the object still unlinks the object and the semaphore when it is destroyed, also those of
  a server that is running.
\<close>

lemma failed_server_unlinks:
  assumes "shm_open_r env h = - 1"
  shows "case init_as_server env (new_manager shm_n sem_n sz) h of (ok, m, h') \<Rightarrow>
     \<not> ok \<and> snd (cleanup m h') = Unlink_sem sem_n # Unlink_shm shm_n # Shm_open shm_n True (- 1) # h"
  using assms by (simp add: init_as_server_def cleanup_def new_manager_def Let_def)

text \<open>A system on which everything works but the semaphore.\<close>

definition failing_sem :: legacy_env where
  "failing_sem = \<lparr>shm_open_r = (\<lambda>h. 3), truncate_r = (\<lambda>h. 0), map_r = (\<lambda>h. Some 4096),
     sem_open_r = (\<lambda>h. None), sem_wait_r = (\<lambda>h. (- 1, True)), sem_post_r = (\<lambda>h. 0)\<rparr>"

end
