(* ===== verification/Concurrency.thy ===== *)
theory Concurrency
  imports Samples
begin

text \<open>
  Many processes on one region.  The operations of \<open>src/cache_engine.cpp\<close> are sequences of
  critical sections under the process-shared \<open>pthread_rwlock_t\<close> of the header: one write section
  for \<open>cache_put_ttl\<close>, \<open>cache_update\<close> and \<open>cache_delete\<close>, one read section for \<open>find_slot\<close>, and
  for \<open>cache_get\<close> a read section followed by a write section that counts or removes.  The step
  relation interleaves the processes at the lock; inside a write section the memory may hold
  anything until the section ends, so nothing is assumed atomic but the lock itself.
\<close>

section \<open>Sections\<close>

text \<open>What a process has still to do: a request, or the second section of a \<open>cache_get\<close>.\<close>

datatype task =
    Serve request
  | Count bool u32
  | Remove "char list" u32

text \<open>The lock the next section of a task takes; \<open>Idle\<close> if the arguments are refused first.\<close>

fun lock_kind :: "task \<Rightarrow> lock_phase" where
  "lock_kind (Serve (Find key)) = (if valid_key_argument key then Reading else Idle)"
| "lock_kind (Serve (Get key out ots)) =
     (if valid_key_argument key \<and> out \<noteq> None then Reading else Idle)"
| "lock_kind (Serve (Put key val ttl)) =
     (if valid_key_argument key \<and> valid_value_argument val then Writing else Idle)"
| "lock_kind (Serve (Update key val)) =
     (if valid_key_argument key \<and> valid_value_argument val then Writing else Idle)"
| "lock_kind (Serve (Delete key)) = (if valid_key_argument key then Writing else Idle)"
| "lock_kind (Count hit c) = Writing"
| "lock_kind (Remove key c) = Writing"

text \<open>A process that finds the region \<open>r\<close>, with an empty history.\<close>

definition fresh :: "region \<Rightarrow> world" where
  "fresh r = \<lparr>mem = r, hist = []\<rparr>"

text \<open>
  What a write section makes of the region it found, and what is left to do after a read section
  that saw \<open>r\<close>.  The environment supplies the clock.
\<close>

fun write_section :: "'a env_scheme \<Rightarrow> task \<Rightarrow> region \<Rightarrow> region" where
  "write_section env (Serve req) r = mem (serve_request env Mapped_base req (fresh r))"
| "write_section env (Count hit c) r = mem (snd (add_get_metrics env hit c (fresh r)))"
| "write_section env (Remove key c) r = mem (get_expired env key c (fresh r))"

fun read_section :: "'a env_scheme \<Rightarrow> task \<Rightarrow> region \<Rightarrow> task option" where
  "read_section env (Serve (Get (Some key) out ots)) r =
     (case get_loop r key (hash_key key (capacity (hdr r))) 0 0 of
        Exit_empty c \<Rightarrow> Some (Count False c)
      | Exit_end c \<Rightarrow> Some (Count False c)
      | Exit_match i c \<Rightarrow>
          (if cache_entry_expired (entry_at r i) (time_now env [Read_lock 0])
           then Some (Remove key c) else Some (Count True c)))"
| "read_section env t r = None"

section \<open>The system\<close>

datatype place =
    Resting
  | Waiting task
  | Inside task region    \<comment> \<open>in a section that found this region\<close>

text \<open>
  The region, the state of the lock, where each process is, and the write sections completed so
  far with their clocks, the latest first.
\<close>

record system =
  shared_mem :: region
  lock_readers :: nat
  lock_writer :: bool
  place_of :: "nat \<Rightarrow> place"
  completed :: "(env \<times> task) list"

definition move :: "nat \<Rightarrow> place \<Rightarrow> system \<Rightarrow> system" where
  "move i p s = s\<lparr>place_of := (place_of s)(i := p)\<rparr>"

definition after_read :: "task option \<Rightarrow> place" where
  "after_read t = (case t of None \<Rightarrow> Resting | Some t \<Rightarrow> Waiting t)"

text \<open>The steps by which requests are worked off.\<close>

inductive work :: "system \<Rightarrow> system \<Rightarrow> bool" where
  refuse: "place_of s i = Waiting t \<Longrightarrow> lock_kind t = Idle \<Longrightarrow> work s (move i Resting s)"
| rdlock: "place_of s i = Waiting t \<Longrightarrow> lock_kind t = Reading \<Longrightarrow> \<not> lock_writer s \<Longrightarrow>
    work s (move i (Inside t (shared_mem s)) (s\<lparr>lock_readers := lock_readers s + 1\<rparr>))"
| wrlock: "place_of s i = Waiting t \<Longrightarrow> lock_kind t = Writing \<Longrightarrow> \<not> lock_writer s \<Longrightarrow>
    lock_readers s = 0 \<Longrightarrow>
    work s (move i (Inside t (shared_mem s)) (s\<lparr>lock_writer := True\<rparr>))"
| rdunlock: "place_of s i = Inside t r \<Longrightarrow> lock_kind t = Reading \<Longrightarrow>
    work s (move i (after_read (read_section (env :: env) t (shared_mem s)))
              (s\<lparr>lock_readers := lock_readers s - 1\<rparr>))"
| wrunlock: "place_of s i = Inside t r \<Longrightarrow> lock_kind t = Writing \<Longrightarrow> alone env \<Longrightarrow> locks_ok env \<Longrightarrow>
    work s (move i Resting (s\<lparr>shared_mem := write_section env t r, lock_writer := False,
              completed := (env, t) # completed s\<rparr>))"

text \<open>
  All steps: besides, a process makes a request, a lock call fails and the operation gives up,
  or a process in a write section leaves the memory in some intermediate state.
\<close>

inductive step :: "system \<Rightarrow> system \<Rightarrow> bool" where
  works: "work s s' \<Longrightarrow> step s s'"
| ask: "place_of s i = Resting \<Longrightarrow> step s (move i (Waiting (Serve req)) s)"
| lock_fails: "place_of s i = Waiting t \<Longrightarrow> step s (move i Resting s)"
| scribble: "place_of s i = Inside t r \<Longrightarrow> lock_kind t = Writing \<Longrightarrow> step s (s\<lparr>shared_mem := r'\<rparr>)"

definition start :: "region \<Rightarrow> system" where
  "start r = \<lparr>shared_mem = r, lock_readers = 0, lock_writer = False, place_of = (\<lambda>i. Resting),
     completed = []\<rparr>"

inductive reachable :: "region \<Rightarrow> system \<Rightarrow> bool" for r0 where
  init: "reachable r0 (start r0)"
| onward: "reachable r0 s \<Longrightarrow> step s s' \<Longrightarrow> reachable r0 s'"

text \<open>One write section after the other, without concurrency.\<close>

fun in_turn :: "(env \<times> task) list \<Rightarrow> region \<Rightarrow> region" where
  "in_turn [] r = r"
| "in_turn ((env, t) # ts) r = write_section env t (in_turn ts r)"

text \<open>The invariant of the lock: what it counts is who is inside.\<close>

definition holders :: "lock_phase \<Rightarrow> system \<Rightarrow> nat set" where
  "holders m s = {i. \<exists>t r. place_of s i = Inside t r \<and> lock_kind t = m}"

definition lock_inv :: "system \<Rightarrow> bool" where
  "lock_inv s \<longleftrightarrow>
     finite (holders Reading s) \<and> card (holders Reading s) = lock_readers s \<and>
     (lock_writer s \<longrightarrow> lock_readers s = 0 \<and> is_singleton (holders Writing s)) \<and>
     (\<not> lock_writer s \<longrightarrow> holders Writing s = {})"

text \<open>The invariant of the data: sections have found, and leave, the sections' sequential result.\<close>

definition data_inv :: "region \<Rightarrow> system \<Rightarrow> bool" where
  "data_inv r0 s \<longleftrightarrow>
     (\<forall>i t r. place_of s i = Inside t r \<longrightarrow> r = in_turn (completed s) r0) \<and>
     (\<not> lock_writer s \<longrightarrow> shared_mem s = in_turn (completed s) r0) \<and>
     (\<forall>(env, t) \<in> set (completed s). alone env)"

text \<open>Who is inside holds some lock, and finitely many processes are at work.\<close>

definition place_inv :: "system \<Rightarrow> bool" where
  "place_inv s \<longleftrightarrow>
     finite {i. place_of s i \<noteq> Resting} \<and>
     (\<forall>i t r. place_of s i = Inside t r \<longrightarrow> lock_kind t = Reading \<or> lock_kind t = Writing)"

section \<open>The invariants are kept\<close>

lemma system_move [simp]:
  "shared_mem (move i p s) = shared_mem s" "lock_readers (move i p s) = lock_readers s"
  "lock_writer (move i p s) = lock_writer s" "completed (move i p s) = completed s"
  "place_of (move i p s) = (place_of s)(i := p)"
  by (simp_all add: move_def)

lemma after_read_outside [simp]: "after_read t \<noteq> Inside u r"
  by (simp add: after_read_def split: option.split)

lemma holders_frame [simp]:
  "holders m (s\<lparr>shared_mem := r\<rparr>) = holders m s" "holders m (s\<lparr>lock_readers := n\<rparr>) = holders m s"
  "holders m (s\<lparr>lock_writer := b\<rparr>) = holders m s" "holders m (s\<lparr>completed := c\<rparr>) = holders m s"
  by (simp_all add: holders_def)

lemma holders_leave:
  "(\<And>t r. p \<noteq> Inside t r) \<Longrightarrow> holders m (move i p s) = holders m s - {i}"
  by (auto simp: holders_def)

lemma holders_enter:
  "place_of s i = Waiting t0 \<Longrightarrow>
   holders m (move i (Inside t r) s) = (if lock_kind t = m then insert i (holders m s) else holders m s)"
  by (auto simp: holders_def)

lemma holders_I: "place_of s i = Inside t r \<Longrightarrow> i \<in> holders (lock_kind t) s"
  by (auto simp: holders_def)

lemma holders_not: "place_of s i = Waiting t \<Longrightarrow> i \<notin> holders m s" "place_of s i = Resting \<Longrightarrow> i \<notin> holders m s"
  "place_of s i = Inside t r \<Longrightarrow> m \<noteq> lock_kind t \<Longrightarrow> i \<notin> holders m s"
  by (auto simp: holders_def)

lemma writing_holder:
  assumes "lock_inv s" "place_of s i = Inside t r" "lock_kind t = Writing"
  shows "lock_writer s" "lock_readers s = 0" "holders Reading s = {}" "holders Writing s = {i}"
  using assms holders_I[OF assms(2)] by (auto simp: lock_inv_def is_singleton_def)

lemma lock_inv_leave:
  assumes "lock_inv s" "place_of s i = Waiting t \<or> place_of s i = Resting" "\<And>t r. p \<noteq> Inside t r"
  shows "lock_inv (move i p s)"
  using assms holders_not[of s i] by (auto simp: lock_inv_def holders_leave)

lemma lock_inv_work: "work s s' \<Longrightarrow> lock_inv s \<Longrightarrow> lock_inv s'"
proof (induction rule: work.induct)
  case (refuse s i t)
  then show ?case by (intro lock_inv_leave) auto
next
  case (rdlock s i t)
  then show ?case using holders_not(1)[of s i t Reading]
    by (simp add: lock_inv_def holders_enter)
next
  case (wrlock s i t)
  then show ?case by (simp add: lock_inv_def holders_enter is_singleton_def)
next
  case (rdunlock s i t r env)
  then have i: "i \<in> holders Reading s" "i \<notin> holders Writing s"
    using holders_I[of s i t r] holders_not(3)[of s i t r Writing] by auto
  with rdunlock.prems have "lock_readers s \<noteq> 0"
    unfolding lock_inv_def by (metis card_0_eq empty_iff)
  with i rdunlock.prems show ?case by (simp add: lock_inv_def holders_leave)
next
  case (wrunlock s i t r env)
  note w = writing_holder[OF wrunlock.prems wrunlock.hyps(1,2)]
  then show ?case by (simp add: lock_inv_def holders_leave)
qed

lemma lock_inv_step: "step s s' \<Longrightarrow> lock_inv s \<Longrightarrow> lock_inv s'"
proof (induction rule: step.induct)
  case (scribble s i t r r')
  then show ?case by (simp add: lock_inv_def)
qed (auto intro: lock_inv_leave lock_inv_work)

lemma place_inv_move:
  assumes "place_inv s" "\<And>t r. p = Inside t r \<Longrightarrow> lock_kind t = Reading \<or> lock_kind t = Writing"
  shows "place_inv (move i p s)"
proof -
  have "finite {j. place_of (move i p s) j \<noteq> Resting}"
  proof (rule finite_subset)
    show "{j. place_of (move i p s) j \<noteq> Resting} \<subseteq> insert i {j. place_of s j \<noteq> Resting}" by auto
    show "finite (insert i {j. place_of s j \<noteq> Resting})" using assms(1) by (simp add: place_inv_def)
  qed
  moreover have "lock_kind t = Reading \<or> lock_kind t = Writing"
    if "place_of (move i p s) j = Inside t r" for j t r
  proof (cases "j = i")
    case True
    with that assms(2) show ?thesis by simp
  next
    case False
    with that have "place_of s j = Inside t r" by simp
    with assms(1) show ?thesis unfolding place_inv_def by blast
  qed
  ultimately show ?thesis by (simp add: place_inv_def del: system_move)
qed

lemma place_inv_frame [simp]:
  "place_inv (s\<lparr>shared_mem := r\<rparr>) = place_inv s" "place_inv (s\<lparr>lock_readers := n\<rparr>) = place_inv s"
  "place_inv (s\<lparr>lock_writer := b\<rparr>) = place_inv s"
  "place_inv (s\<lparr>shared_mem := r, lock_writer := b, completed := c\<rparr>) = place_inv s"
  by (simp_all add: place_inv_def)

lemma place_inv_step: "step s s' \<Longrightarrow> place_inv s \<Longrightarrow> place_inv s'"
  by (induction rule: step.induct) (auto elim!: work.cases intro!: place_inv_move)

lemma data_inv_frame [simp]: "data_inv r0 (s\<lparr>lock_readers := n\<rparr>) = data_inv r0 s"
  by (simp add: data_inv_def)

lemma data_inv_leave:
  "data_inv r0 s \<Longrightarrow> (\<And>t r. p \<noteq> Inside t r) \<Longrightarrow> data_inv r0 (move i p s)"
  by (auto simp: data_inv_def)

lemma data_inv_work: "work s s' \<Longrightarrow> lock_inv s \<Longrightarrow> place_inv s \<Longrightarrow> data_inv r0 s \<Longrightarrow> data_inv r0 s'"
proof (induction rule: work.induct)
  case (refuse s i t)
  then show ?case by (intro data_inv_leave) auto
next
  case (rdlock s i t)
  then show ?case by (auto simp: data_inv_def)
next
  case (wrlock s i t)
  then show ?case by (auto simp: data_inv_def)
next
  case (rdunlock s i t r env)
  then show ?case by (intro data_inv_leave) simp_all
next
  case (wrunlock s i t r env)
  note w = writing_holder[OF wrunlock.prems(1) wrunlock.hyps(1,2)]
  have "place_of s j \<noteq> Inside t' r'" if "j \<noteq> i" for j t' r'
  proof
    assume j: "place_of s j = Inside t' r'"
    then have "lock_kind t' = Reading \<or> lock_kind t' = Writing"
      using wrunlock.prems(2) by (auto simp: place_inv_def)
    then show False using holders_I[OF j] w(3,4) that by auto
  qed
  with wrunlock show ?case by (auto simp: data_inv_def)
qed

lemma data_inv_step:
  "step s s' \<Longrightarrow> lock_inv s \<Longrightarrow> place_inv s \<Longrightarrow> data_inv r0 s \<Longrightarrow> data_inv r0 s'"
proof (induction rule: step.induct)
  case (scribble s i t r r')
  note w = writing_holder[OF scribble.prems(1) scribble.hyps]
  with scribble.prems show ?case by (auto simp: data_inv_def)
qed (auto intro: data_inv_leave data_inv_work)

lemma reachable_inv:
  "reachable r0 s \<Longrightarrow> lock_inv s \<and> place_inv s \<and> data_inv r0 s"
proof (induction rule: reachable.induct)
  case init
  then show ?case
    by (simp add: start_def lock_inv_def place_inv_def data_inv_def holders_def)
next
  case (onward s s')
  then show ?case using lock_inv_step place_inv_step data_inv_step by blast
qed

lemma reader_memory:
  assumes "lock_inv s" "data_inv r0 s" "place_of s i = Inside t r" "lock_kind t = Reading"
  shows "shared_mem s = in_turn (completed s) r0"
proof -
  have "i \<in> holders Reading s" using holders_I[OF assms(3)] assms(4) by simp
  with assms(1) have "\<not> lock_writer s"
    unfolding lock_inv_def by (metis card_0_eq empty_iff)
  with assms(2) show ?thesis by (simp add: data_inv_def)
qed

lemma writer_alone:
  assumes "lock_inv s" "place_inv s" "place_of s i = Inside t r" "lock_kind t = Writing"
    and j: "place_of s j = Inside u q"
  shows "j = i"
proof -
  from assms(2) j have "lock_kind u = Reading \<or> lock_kind u = Writing"
    unfolding place_inv_def by blast
  with holders_I[OF j] writing_holder(3,4)[OF assms(1,3,4)] show ?thesis by auto
qed

section \<open>The sections keep the table well-formed\<close>

lemma table_inv_write_section:
  "alone env \<Longrightarrow> table_inv n r \<Longrightarrow> table_inv n (write_section env t r)"
  by (cases t) (simp_all add: table_inv_serve_request table_inv_metrics table_inv_expired
      alone_peers_ok fresh_def)

lemma table_inv_in_turn:
  "\<forall>(env, t) \<in> set ts. alone env \<Longrightarrow> table_inv n r \<Longrightarrow> table_inv n (in_turn ts r)"
  by (induction ts r rule: in_turn.induct) (auto intro: table_inv_write_section)

text \<open>A request without other processes does exactly its sections.\<close>

lemma get_in_sections:
  assumes env: "alone env" "locks_ok env" "\<And>h. time_now env h = t" and k: "valid_key_argument (Some key)"
  shows "write_section env (Serve (Get (Some key) (Some out) ots)) r =
    write_section env (the (read_section env (Serve (Get (Some key) (Some out) ots)) r)) r"
  using env k
  by (simp add: fresh_def cache_get_def lock_for_read_ok locks_ok_def read_clock_eq Let_def split_beta
      mem_add_get_metrics get_expired_def lock_for_write_ok
      split: probe_exit.split)

section \<open>Progress\<close>

text \<open>How many steps of work a process can still make, and all processes together.\<close>

fun steps_left :: "place \<Rightarrow> nat" where
  "steps_left Resting = 0"
| "steps_left (Waiting t) = (if lock_kind t = Reading then 4 else 2)"
| "steps_left (Inside t r) = (if lock_kind t = Reading then 3 else 1)"

definition pending :: "system \<Rightarrow> nat" where
  "pending s = (\<Sum>i | place_of s i \<noteq> Resting. steps_left (place_of s i))"

lemma lock_kind_cases: "lock_kind t = Idle \<or> lock_kind t = Reading \<or> lock_kind t = Writing"
  by (cases t rule: lock_kind.cases) auto

lemma lock_kind_next: "read_section env t r = Some u \<Longrightarrow> lock_kind u = Writing"
  by (cases "(env, t, r)" rule: read_section.cases) (auto split: probe_exit.splits if_splits)

lemma steps_left_after [simp]: "steps_left (after_read (read_section env t r)) \<le> 2"
  by (cases "read_section env t r") (auto simp: after_read_def lock_kind_next)

lemma pending_over:
  "finite A \<Longrightarrow> {i. place_of s i \<noteq> Resting} \<subseteq> A \<Longrightarrow> pending s = (\<Sum>i\<in>A. steps_left (place_of s i))"
  unfolding pending_def by (rule sum.mono_neutral_left) auto

lemma pending_move:
  assumes "place_inv s"
  shows "pending (move i p s) + steps_left (place_of s i) = pending s + steps_left p"
proof -
  let ?A = "insert i {j. place_of s j \<noteq> Resting}"
  have A: "finite ?A" using assms by (simp add: place_inv_def)
  have "pending (move i p s) = (\<Sum>j\<in>?A. steps_left (place_of (move i p s) j))"
    by (rule pending_over[OF A]) auto
  also have "\<dots> = steps_left p + (\<Sum>j\<in>?A - {i}. steps_left (place_of s j))"
    using A by (subst sum.remove[of _ i]) auto
  finally have 1: "pending (move i p s) = steps_left p + (\<Sum>j\<in>?A - {i}. steps_left (place_of s j))" .
  have "pending s = (\<Sum>j\<in>?A. steps_left (place_of s j))"
    by (rule pending_over[OF A]) auto
  also have "\<dots> = steps_left (place_of s i) + (\<Sum>j\<in>?A - {i}. steps_left (place_of s j))"
    using A by (subst sum.remove[of _ i]) auto
  finally show ?thesis using 1 by simp
qed

lemma pending_frame [simp]:
  "pending (s\<lparr>lock_readers := n\<rparr>) = pending s" "pending (s\<lparr>lock_writer := b\<rparr>) = pending s"
  "pending (s\<lparr>shared_mem := r, lock_writer := b, completed := c\<rparr>) = pending s"
  by (simp_all add: pending_def)

lemma pending_less:
  assumes "place_inv s" "steps_left p < steps_left (place_of s i)"
  shows "pending (move i p s) < pending s"
  using pending_move[OF assms(1), of i p] assms(2) by simp

lemma pending_work: "work s s' \<Longrightarrow> place_inv s \<Longrightarrow> pending s' < pending s"
proof (induction rule: work.induct)
  case (refuse s i t)
  then show ?case by (intro pending_less) auto
next
  case (rdlock s i t)
  then show ?case
    using pending_less[of "s\<lparr>lock_readers := lock_readers s + 1\<rparr>" "Inside t (shared_mem s)" i] by simp
next
  case (wrlock s i t)
  then show ?case
    using pending_less[of "s\<lparr>lock_writer := True\<rparr>" "Inside t (shared_mem s)" i] by simp
next
  case (rdunlock s i t r env)
  then show ?case
    using pending_less[of "s\<lparr>lock_readers := lock_readers s - 1\<rparr>"
        "after_read (read_section env t (shared_mem s))" i]
      steps_left_after[of env t "shared_mem s"] by simp
next
  case (wrunlock s i t r env)
  then show ?case
    using pending_less[of "s\<lparr>shared_mem := write_section env t r, lock_writer := False,
        completed := (env, t) # completed s\<rparr>" Resting i] by simp
qed

lemma work_enabled:
  assumes "lock_inv s" "place_inv s" "place_of s i \<noteq> Resting"
  shows "\<exists>s'. work s s'"
proof (cases "lock_writer s")
  case True
  with assms(1) obtain j where "j \<in> holders Writing s" by (auto simp: lock_inv_def is_singleton_def)
  then obtain t r where "place_of s j = Inside t r" "lock_kind t = Writing" by (auto simp: holders_def)
  from work.wrunlock[OF this, of "sole_env 0"] show ?thesis by auto
next
  case free: False
  show ?thesis
  proof (cases "holders Reading s = {}")
    case False
    then obtain j t r where "place_of s j = Inside t r" "lock_kind t = Reading" by (auto simp: holders_def)
    from work.rdunlock[OF this] show ?thesis by blast
  next
    case True
    with free assms(1) have none: "lock_readers s = 0" "holders Writing s = {}"
      by (auto simp: lock_inv_def)
    show ?thesis
    proof (cases "place_of s i")
      case (Inside t r)
      with assms(2) have "lock_kind t = Reading \<or> lock_kind t = Writing"
        unfolding place_inv_def by blast
      with holders_I[OF Inside] True none show ?thesis by auto
    next
      case (Waiting t)
      with free none lock_kind_cases[of t] show ?thesis
        using work.refuse work.rdlock work.wrlock by blast
    qed (use assms(3) in simp)
  qed
qed

lemma work_place_inv: "work s s' \<Longrightarrow> place_inv s \<Longrightarrow> place_inv s'"
  using place_inv_step[OF step.works] .

lemma work_bounded: "(work ^^ n) s s' \<Longrightarrow> place_inv s \<Longrightarrow> n + pending s' \<le> pending s"
proof (induction n arbitrary: s')
  case (Suc n)
  then obtain u where u: "(work ^^ n) s u" "work u s'" by auto
  from u(1) Suc.prems(2) have "place_inv u"
    by (induction n arbitrary: u) (auto dest: work_place_inv)
  from pending_work[OF u(2) this] Suc.IH[OF u(1) Suc.prems(2)] show ?case by simp
qed simp

lemma work_reachable: "work\<^sup>*\<^sup>* s s' \<Longrightarrow> reachable r0 s \<Longrightarrow> reachable r0 s'"
  by (induction rule: rtranclp_induct) (auto intro: reachable.onward step.works)

text \<open>When no process can work any more, all are at rest and the lock is free.\<close>

lemma work_done:
  assumes "reachable r0 s" "\<And>s'. \<not> work s s'"
  shows "place_of s i = Resting" "lock_readers s = 0" "\<not> lock_writer s"
proof -
  from reachable_inv[OF assms(1)] have inv: "lock_inv s" "place_inv s" by simp_all
  have rest: "place_of s j = Resting" for j using work_enabled[OF inv, of j] assms(2) by blast
  then have "holders m s = {}" for m by (simp add: holders_def)
  with inv(1) rest show "place_of s i = Resting" "lock_readers s = 0" "\<not> lock_writer s"
    by (auto simp: lock_inv_def is_singleton_def)
qed

text \<open>A run with torn intermediate contents: one process has stored a pair.\<close>

definition sample_put :: task where
  "sample_put = Serve (Put (Some ''a'') (Some ''x'') 0)"

definition put_done :: "region \<Rightarrow> system" where
  "put_done r = (start r)\<lparr>shared_mem := write_section (sole_env 9) sample_put r,
     completed := [(sole_env 9, sample_put)]\<rparr>"

lemma put_done_reachable: "reachable r (put_done r)"
proof -
  let ?s1 = "move 1 (Waiting sample_put) (start r)"
  let ?s2 = "move 1 (Inside sample_put r) (?s1\<lparr>lock_writer := True\<rparr>)"
  let ?s3 = "?s2\<lparr>shared_mem := zero_region 7\<rparr>"
  let ?s4 = "move 1 Resting (?s3\<lparr>shared_mem := write_section (sole_env 9) sample_put r,
    lock_writer := False, completed := [(sole_env 9, sample_put)]\<rparr>)"
  have kind: "lock_kind sample_put = Writing"
    by (simp add: sample_put_def valid_key_argument_def valid_value_argument_def char_at_def
        strlen_def MAX_KEY_LEN_def MAX_VAL_LEN_def)
  have at1: "place_of (start r) 1 = Resting" and at2: "place_of ?s1 1 = Waiting sample_put"
    and at3: "place_of ?s2 1 = Inside sample_put r" and at4: "place_of ?s3 1 = Inside sample_put r"
    by (simp_all add: start_def)
  have "step (start r) ?s1" unfolding sample_put_def by (rule step.ask[OF at1])
  moreover have "step ?s1 ?s2"
    using work.wrlock[OF at2 kind] by (intro step.works) (simp add: start_def)
  moreover have "step ?s2 ?s3" by (rule step.scribble[OF at3 kind])
  moreover have "step ?s3 ?s4"
    using work.wrunlock[OF at4 kind sole_env_ok(1,2), of 9] by (intro step.works) (simp add: start_def)
  ultimately have "reachable r ?s4"
    by (meson reachable.init reachable.onward)
  moreover have "?s4 = put_done r" by (simp add: put_done_def start_def move_def fun_eq_iff)
  ultimately show ?thesis by simp
qed

end
