(* ===== verification/Linear.thy ===== *)
theory Linear
  imports Concurrency
begin

text \<open>
  The processes' operations together look like operations on one map, done one at a time.  The
  steps of \<open>Concurrency\<close> are labelled with the answers the operations of \<open>src/cache_engine.cpp\<close>
  give; an answer is recorded at the step that decides it, which lies between the request and its
  end: the release of the write lock for \<open>cache_put_ttl\<close>, \<open>cache_update\<close> and \<open>cache_delete\<close>, the
  release of the read lock for \<open>cache_get\<close> and \<open>find_slot\<close>.  The recorded sequence is then a
  history of an abstract map with expiry and a bounded number of keys.
\<close>

section \<open>The abstract cache\<close>

type_synonym kv = "string \<Rightarrow> item option"

text \<open>
  What an operation reports: success or failure, the value and time found, or that it has refused
  its arguments or could not lock, in which case the code reports failure.
\<close>

datatype answer = Ok bool | Value string "u64 option" | Nothing | Refused | No_lock

text \<open>
  Making room for a key among at most \<open>n\<close>: nothing is done unless the map is full of other keys;
  then all expired items give way, or else one of the oldest writes.
\<close>

definition room_for :: "nat \<Rightarrow> u64 \<Rightarrow> string \<Rightarrow> kv \<Rightarrow> kv \<Rightarrow> bool" where
  "room_for n now k m m' \<longleftrightarrow>
     (if m k \<noteq> None \<or> card (dom m) \<noteq> n then m' = m
      else if \<exists>k' it. m k' = Some it \<and> item_expired it now then m' = live_items now m
      else \<exists>k' it. m k' = Some it \<and> (\<forall>k'' it'. m k'' = Some it' \<longrightarrow> item_time it \<le> item_time it') \<and>
             m' = m(k' := None))"

fun good_request :: "request \<Rightarrow> bool" where
  "good_request (Find key) = valid_key_argument key"
| "good_request (Put key val ttl) = (valid_key_argument key \<and> valid_value_argument val)"
| "good_request (Get key out ots) = (valid_key_argument key \<and> out \<noteq> None)"
| "good_request (Update key val) = (valid_key_argument key \<and> valid_value_argument val)"
| "good_request (Delete key) = valid_key_argument key"

text \<open>One operation on the map of at most \<open>n\<close> keys, while the clock shows times of the set \<open>T\<close>.\<close>

inductive abstract_op :: "nat \<Rightarrow> u64 set \<Rightarrow> request \<Rightarrow> kv \<Rightarrow> answer \<Rightarrow> kv \<Rightarrow> bool" for n T where
  put: "good_request (Put (Some key) (Some val) ttl) \<Longrightarrow> now \<in> T \<Longrightarrow> t \<in> T \<Longrightarrow>
    room_for n now (cstr key) m m' \<Longrightarrow>
    abstract_op n T (Put (Some key) (Some val) ttl) m (Ok True)
      (m'(cstr key \<mapsto> \<lparr>item_value = cstr val, item_time = t, item_ttl = ttl\<rparr>))"
| update: "good_request (Update (Some key) (Some val)) \<Longrightarrow> now \<in> T \<Longrightarrow> t \<in> T \<Longrightarrow>
    updated now t (cstr key) (cstr val) m = (b, m') \<Longrightarrow>
    abstract_op n T (Update (Some key) (Some val)) m (Ok b) m'"
| delete: "good_request (Delete (Some key)) \<Longrightarrow>
    abstract_op n T (Delete (Some key)) m (Ok (m (cstr key) \<noteq> None)) (m(cstr key := None))"
| hit: "good_request (Get (Some key) out ots) \<Longrightarrow> m (cstr key) = Some it \<Longrightarrow> now \<in> T \<Longrightarrow>
    \<not> item_expired it now \<Longrightarrow>
    abstract_op n T (Get (Some key) out ots) m (Value (item_value it) (map_option (\<lambda>_. item_time it) ots)) m"
| miss: "good_request (Get (Some key) out ots) \<Longrightarrow> now \<in> T \<Longrightarrow>
    (case m (cstr key) of None \<Rightarrow> True | Some it \<Rightarrow> item_expired it now) \<Longrightarrow>
    abstract_op n T (Get (Some key) out ots) m Nothing m"
| find: "good_request (Find (Some key)) \<Longrightarrow>
    abstract_op n T (Find (Some key)) m (Ok (m (cstr key) \<noteq> None \<or> card (dom m) \<noteq> n)) m"
| refused: "\<not> good_request req \<Longrightarrow> abstract_op n T req m Refused m"
| no_lock: "good_request req \<Longrightarrow> abstract_op n T req m No_lock m"

text \<open>
  A history of the abstract cache, the latest first: answers to processes, and the moments at which
  an expired item may vanish, each with the times the clock showed.
\<close>

datatype entry = Answer nat request answer "u64 set" | Expiry "u64 set"

inductive abstract_history :: "nat \<Rightarrow> kv \<Rightarrow> entry list \<Rightarrow> kv \<Rightarrow> bool" for n m0 where
  none: "abstract_history n m0 [] m0"
| op: "abstract_history n m0 l m \<Longrightarrow> abstract_op n T req m ans m' \<Longrightarrow>
    abstract_history n m0 (Answer i req ans T # l) m'"
| stay: "abstract_history n m0 l m \<Longrightarrow> abstract_history n m0 (Expiry T # l) m"
| vanish: "abstract_history n m0 l m \<Longrightarrow> m k = Some it \<Longrightarrow> now \<in> T \<Longrightarrow> item_expired it now \<Longrightarrow>
    abstract_history n m0 (Expiry T # l) (m(k := None))"

section \<open>Answers of the code\<close>

text \<open>What an operation answers when the region it finds is \<open>r\<close>.\<close>

fun answer_of :: "env \<Rightarrow> request \<Rightarrow> region \<Rightarrow> answer" where
  "answer_of env (Find key) r = Ok (\<not> sint (fst (find_slot env Mapped_base key (fresh r))) < 0)"
| "answer_of env (Put key val ttl) r = Ok (fst (cache_put_ttl env Mapped_base key val ttl (fresh r)))"
| "answer_of env (Update key val) r = Ok (fst (cache_update env Mapped_base key val (fresh r)))"
| "answer_of env (Delete key) r = Ok (fst (cache_delete env Mapped_base key (fresh r)))"
| "answer_of env (Get key out ots) r =
     (case cache_get env Mapped_base key out ots (fresh r) of
        (ok, out', ots', _) \<Rightarrow> if ok then Value (cstr (the out')) ots' else Nothing)"

text \<open>A caller of \<open>cache_get\<close> provides a buffer for a whole value.\<close>

fun buffer_ok :: "request \<Rightarrow> bool" where
  "buffer_ok (Get key (Some out) ots) = (MAX_VAL_LEN \<le> length out)"
| "buffer_ok req = True"

section \<open>Labelled steps\<close>

definition times :: "env \<Rightarrow> u64 set" where
  "times env = range (time_now env)"

inductive lstep :: "system \<Rightarrow> entry option \<Rightarrow> system \<Rightarrow> bool" where
  ask: "place_of s i = Resting \<Longrightarrow> buffer_ok req \<Longrightarrow> lstep s None (move i (Waiting (Serve req)) s)"
| refuse: "place_of s i = Waiting (Serve req) \<Longrightarrow> lock_kind (Serve req) = Idle \<Longrightarrow>
    lstep s (Some (Answer i req Refused {})) (move i Resting s)"
| no_lock: "place_of s i = Waiting (Serve req) \<Longrightarrow> lock_kind (Serve req) \<noteq> Idle \<Longrightarrow>
    lstep s (Some (Answer i req No_lock {})) (move i Resting s)"
| no_second_lock: "place_of s i = Waiting t \<Longrightarrow> (\<And>req. t \<noteq> Serve req) \<Longrightarrow> lstep s None (move i Resting s)"
| rdlock: "place_of s i = Waiting t \<Longrightarrow> lock_kind t = Reading \<Longrightarrow> \<not> lock_writer s \<Longrightarrow>
    lstep s None (move i (Inside t (shared_mem s)) (s\<lparr>lock_readers := lock_readers s + 1\<rparr>))"
| wrlock: "place_of s i = Waiting t \<Longrightarrow> lock_kind t = Writing \<Longrightarrow> \<not> lock_writer s \<Longrightarrow>
    lock_readers s = 0 \<Longrightarrow>
    lstep s None (move i (Inside t (shared_mem s)) (s\<lparr>lock_writer := True\<rparr>))"
| scribble: "place_of s i = Inside t r \<Longrightarrow> lock_kind t = Writing \<Longrightarrow> lstep s None (s\<lparr>shared_mem := r'\<rparr>)"
| read: "place_of s i = Inside (Serve req) r \<Longrightarrow> lock_kind (Serve req) = Reading \<Longrightarrow>
    alone env \<Longrightarrow> locks_ok env \<Longrightarrow>
    lstep s (Some (Answer i req (answer_of env req (shared_mem s)) (times env)))
      (move i (after_read (read_section env (Serve req) (shared_mem s)))
        (s\<lparr>lock_readers := lock_readers s - 1\<rparr>))"
| written: "place_of s i = Inside (Serve req) r \<Longrightarrow> lock_kind (Serve req) = Writing \<Longrightarrow>
    alone env \<Longrightarrow> locks_ok env \<Longrightarrow>
    lstep s (Some (Answer i req (answer_of env req r) (times env)))
      (move i Resting (s\<lparr>shared_mem := write_section env (Serve req) r, lock_writer := False,
              completed := (env, Serve req) # completed s\<rparr>))"
| second: "place_of s i = Inside t r \<Longrightarrow> lock_kind t = Writing \<Longrightarrow> (\<And>req. t \<noteq> Serve req) \<Longrightarrow>
    alone env \<Longrightarrow> locks_ok env \<Longrightarrow>
    lstep s (Some (Expiry (times env)))
      (move i Resting (s\<lparr>shared_mem := write_section env t r, lock_writer := False,
              completed := (env, t) # completed s\<rparr>))"

text \<open>A run from the region \<open>r0\<close>, with the answers recorded so far.\<close>

inductive run :: "region \<Rightarrow> system \<Rightarrow> entry list \<Rightarrow> bool" for r0 where
  begin_run: "run r0 (start r0) []"
| silent: "run r0 s l \<Longrightarrow> lstep s None s' \<Longrightarrow> run r0 s' l"
| answers: "run r0 s l \<Longrightarrow> lstep s (Some x) s' \<Longrightarrow> run r0 s' (x # l)"

lemma lstep_step: "lstep s x s' \<Longrightarrow> step s s'"
proof (induction rule: lstep.induct)
  case (ask s i req)
  then show ?case by (intro step.ask)
next
  case (rdlock s i t)
  then show ?case by (intro step.works work.rdlock)
next
  case (wrlock s i t)
  then show ?case by (intro step.works work.wrlock)
next
  case (scribble s i t r r')
  then show ?case by (intro step.scribble)
next
  case (read s i req r env)
  then show ?case by (intro step.works work.rdunlock)
next
  case (written s i req r env)
  then show ?case by (intro step.works work.wrunlock)
next
  case (second s i t r env)
  then show ?case by (intro step.works work.wrunlock)
qed (auto intro: step.intros work.intros)

text \<open>
  Conversely, every step of the system is a labelled step, but for a request with a buffer that is
  too small.
\<close>

definition with_clock :: "env \<Rightarrow> env" where
  "with_clock env = (sole_env 0)\<lparr>time_now := time_now env\<rparr>"

lemma with_clock_ok: "alone (with_clock env)" "locks_ok (with_clock env)"
  by (simp_all add: with_clock_def sole_env_def alone_def locks_ok_def)

lemma read_section_clock: "read_section (with_clock env) t r = read_section env t r"
  by (cases "(env, t, r)" rule: read_section.cases) (simp_all add: with_clock_def split: probe_exit.split)

lemma reading_serves: "lock_kind t = Reading \<Longrightarrow> \<exists>req. t = Serve req"
  by (cases t) simp_all

lemma work_lstep: "work s s' \<Longrightarrow> \<exists>x. lstep s x s'"
proof (induction rule: work.induct)
  case (refuse s i t)
  then obtain req where "t = Serve req" by (cases t) auto
  with refuse lstep.refuse show ?case by blast
next
  case (rdlock s i t)
  then show ?case using lstep.rdlock by blast
next
  case (wrlock s i t)
  then show ?case using lstep.wrlock by blast
next
  case (rdunlock s i t r env)
  then obtain req where "t = Serve req" using reading_serves by blast
  with rdunlock lstep.read[of s i req r, OF _ _ with_clock_ok, of env] show ?case
    by (auto simp: read_section_clock)
next
  case (wrunlock s i t r env)
  then show ?case using lstep.written lstep.second by (cases "\<exists>req. t = Serve req") blast+
qed

lemma step_lstep:
  "step s s' \<Longrightarrow> (\<exists>x. lstep s x s') \<or> (\<exists>i req. s' = move i (Waiting (Serve req)) s \<and> \<not> buffer_ok req)"
proof (induction rule: step.induct)
  case (works s s')
  then show ?case using work_lstep by blast
next
  case (ask s i req)
  then show ?case using lstep.ask by blast
next
  case (lock_fails s i t)
  show ?case
  proof (cases "\<exists>req. t = Serve req")
    case True
    with lock_fails lstep.refuse[of s i] lstep.no_lock[of s i] show ?thesis by blast
  next
    case False
    with lock_fails lstep.no_second_lock[of s i t] show ?thesis by blast
  qed
next
  case (scribble s i t r r')
  then show ?case using lstep.scribble by blast
qed

lemma run_reachable: "run r0 s l \<Longrightarrow> reachable r0 s"
  by (induction rule: run.induct) (auto intro: reachable.intros lstep_step)

text \<open>The buffers of the requests under way.\<close>

definition buffers_inv :: "system \<Rightarrow> bool" where
  "buffers_inv s \<longleftrightarrow>
     (\<forall>i req. place_of s i = Waiting (Serve req) \<longrightarrow> buffer_ok req) \<and>
     (\<forall>i req r. place_of s i = Inside (Serve req) r \<longrightarrow> buffer_ok req)"

lemma after_read_second: "after_read (read_section env t r) \<noteq> Waiting (Serve req)"
  by (cases "(env, t, r)" rule: read_section.cases)
    (auto simp: after_read_def split: probe_exit.split)

lemma buffers_inv_lstep: "lstep s x s' \<Longrightarrow> buffers_inv s \<Longrightarrow> buffers_inv s'"
  by (induction rule: lstep.induct) (auto simp: buffers_inv_def after_read_second)

lemma run_buffers: "run r0 s l \<Longrightarrow> buffers_inv s"
proof (induction rule: run.induct)
  case begin_run
  then show ?case by (simp add: buffers_inv_def start_def)
qed (auto intro: buffers_inv_lstep)

section \<open>One operation\<close>

lemma room_made_for:
  assumes wf: "table_wf r" and m: "room_made now r k m"
  shows "room_for (cap r) now k (abs_map r) m"
proof (cases "full_for r k \<and> \<not> some_expired now r")
  case False
  with m show ?thesis
    by (auto simp: room_made_def room_for_def full_for_def some_expired_def split: if_splits)
next
  case True
  with m obtain p where p: "oldest_below r (cap r) p" "m = (abs_map r)(slot_key_at r p := None)"
    by (auto simp: room_made_def)
  then have o: "p < cap r" "view r p = Held (slot_key_at r p)"
    by (simp_all add: oldest_below_def view_def slot_key_at_def)
  have it: "abs_map r (slot_key_at r p) = Some (entry_item (slots r ! p))"
    by (rule abs_map_SomeI[OF wf o])
  have "item_time (entry_item (slots r ! p)) \<le> item_time it'" if "abs_map r k' = Some it'" for k' it'
  proof -
    from wf that obtain q where q: "q < cap r" "view r q = Held k'" "it' = entry_item (slots r ! q)"
      by (rule abs_map_SomeD)
    then have "occupied (slots r ! q)" by (simp add: view_def split: if_splits)
    with p(1) q show ?thesis by (auto simp: oldest_below_def less_eq_prod_def entry_item_def)
  qed
  with True it p(2) show ?thesis
    by (auto simp: room_for_def full_for_def some_expired_def)
qed

lemma good_request_kind: "good_request req \<longleftrightarrow> lock_kind (Serve req) \<noteq> Idle"
  by (cases req) auto

lemma fresh_simps [simp]: "mem (fresh r) = r" "hist (fresh r) = []"
  by (simp_all add: fresh_def)

lemma valid_keyE:
  assumes "valid_key_argument key"
  obtains k where "key = Some k" "key_fits k"
  using assms by (cases key) (auto simp: valid_key_fits)

lemma valid_valueE:
  assumes "valid_value_argument val"
  obtains v where "val = Some v" "value_fits v"
  using assms by (cases val) (auto simp: valid_value_fits)

text \<open>An operation that takes the write lock does on the map what the abstract cache does.\<close>

lemma written_abstract:
  assumes wf: "table_wf r" and env: "alone env" "locks_ok env" and w: "lock_kind (Serve req) = Writing"
  shows "abstract_op (cap r) (times env) req (abs_map r) (answer_of env req r) (abs_map (write_section env (Serve req) r))"
proof -
  have a: "acquired_write env (fresh r) = r" using env(1) by simp
  have l: "wrlock_rc env (hist (fresh r)) = 0" using env(2) by (simp add: locks_ok_def)
  have wa: "table_wf (acquired_write env (fresh r))" using wf a by simp
  have good: "good_request req" using w by (simp add: good_request_kind)
  show ?thesis
  proof (cases req)
    case (Put key val ttl)
    with good obtain k v where kv: "key = Some k" "key_fits k" "val = Some v" "value_fits v"
      by (auto elim!: valid_keyE valid_valueE)
    obtain ok w' where r: "cache_put_ttl env Mapped_base (Some k) (Some v) ttl (fresh r) = (ok, w')" by fastforce
    from cache_put_ttl_spec[OF wa kv(2,4) l r] a obtain m where ok: ok
      and m: "room_made (reclaim_time env (fresh r)) r (cstr k) m"
      and w': "abs_map (mem w') = m(cstr k \<mapsto>
        \<lparr>item_value = cstr v, item_time = put_time env k (fresh r), item_ttl = ttl\<rparr>)"
      by (auto simp: put_result_def)
    from abstract_op.put[OF good[unfolded Put kv(1,3)] _ _ room_made_for[OF wf m]] show ?thesis
      unfolding Put kv using r ok w' by (simp add: times_def reclaim_time_def put_time_def)
  next
    case (Update key val)
    with good obtain k v where kv: "key = Some k" "key_fits k" "val = Some v" "value_fits v"
      by (auto elim!: valid_keyE valid_valueE)
    from cache_update_spec[OF wa kv(2,4) l] a have
      "updated (write_time env (fresh r)) (update_stamp env (fresh r)) (cstr k) (cstr v) (abs_map r) =
        (fst (cache_update env Mapped_base (Some k) (Some v) (fresh r)),
         abs_map (mem (snd (cache_update env Mapped_base (Some k) (Some v) (fresh r)))))" by simp
    from abstract_op.update[OF good[unfolded Update kv(1,3)] _ _ this] show ?thesis
      unfolding Update kv by (simp add: times_def write_time_def update_stamp_def)
  next
    case (Delete key)
    with good obtain k where kv: "key = Some k" "key_fits k" by (auto elim!: valid_keyE)
    from cache_delete_spec[OF wa kv(2) l] a
      abstract_op.delete[OF good[unfolded Delete kv(1)], of "cap r" "times env" "abs_map r"] show ?thesis
      unfolding Delete kv by simp
  qed (use w in \<open>auto split: if_splits\<close>)
qed

lemma find_abstract:
  assumes wf: "table_wf r" and env: "alone env" "locks_ok env" and good: "good_request (Find (Some k))"
  shows "abstract_op (cap r) (times env) (Find (Some k)) (abs_map r) (answer_of env (Find (Some k)) r) (abs_map r)"
proof -
  have "fst (find_slot env Mapped_base (Some k) (fresh r)) = fst (find_slot_internal (Some r) (Some k) None)"
    using env good by (simp add: find_slot_def lock_for_read_ok locks_ok_def Let_def)
  from find_slot_spec[OF wf this[symmetric]]
  have "\<not> sint (fst (find_slot env Mapped_base (Some k) (fresh r))) < 0 \<longleftrightarrow> \<not> full_for r (cstr k)"
    using full_for_without[OF wf] by auto
  then have "answer_of env (Find (Some k)) r = Ok (abs_map r (cstr k) \<noteq> None \<or> card (dom (abs_map r)) \<noteq> cap r)"
    by (simp add: full_for_def)
  with abstract_op.find[OF good, of "cap r" "times env" "abs_map r"] show ?thesis by simp
qed

lemma get_abstract:
  assumes wf: "table_wf r" and env: "alone env" "locks_ok env" and good: "good_request (Get (Some k) (Some out) ots)"
    and len: "MAX_VAL_LEN \<le> length out"
  shows "abstract_op (cap r) (times env) (Get (Some k) (Some out) ots) (abs_map r) (answer_of env (Get (Some k) (Some out) ots) r)
    (abs_map r)"
proof -
  have a: "acquired_read env (fresh r) = r" using env(1) by simp
  have l: "rdlock_rc env (hist (fresh r)) = 0" using env(2) by (simp add: locks_ok_def)
  have wa: "table_wf (acquired_read env (fresh r))" using wf a by simp
  have k: "key_fits k" using good by (simp add: valid_key_fits)
  have t: "get_time env (fresh r) \<in> times env" by (simp add: get_time_def times_def)
  show ?thesis
  proof (cases "\<exists>it. abs_map r (cstr k) = Some it \<and> \<not> item_expired it (get_time env (fresh r))")
    case True
    then obtain it where it: "abs_map r (cstr k) = Some it" "\<not> item_expired it (get_time env (fresh r))"
      by blast
    have "answer_of env (Get (Some k) (Some out) ots) r = Value (item_value it) (map_option (\<lambda>_. item_time it) ots)"
      by (rule cache_get_hit[OF wa k l, of it out ots]) (use it len in \<open>simp_all add: a copied_out_def\<close>)
    with abstract_op.hit[where m = "abs_map r", OF good it(1) t it(2)] show ?thesis by (simp only:)
  next
    case False
    have "answer_of env (Get (Some k) (Some out) ots) r = Nothing"
    proof (cases "abs_map r (cstr k)")
      case None
      show ?thesis by (rule cache_get_absent[OF wa k l, of out ots]) (simp_all add: a None)
    next
      case (Some it)
      with False have e: "item_expired it (get_time env (fresh r))" by blast
      show ?thesis by (rule cache_get_expired[OF wa k l, of it out ots]) (simp_all add: a Some e)
    qed
    moreover have "case abs_map r (cstr k) of None \<Rightarrow> True | Some it \<Rightarrow> item_expired it (get_time env (fresh r))"
      using False by (auto split: option.split)
    ultimately show ?thesis using abstract_op.miss[where m = "abs_map r", OF good t] by (simp only:)
  qed
qed

lemma read_abstract:
  assumes "table_wf r" "alone env" "locks_ok env" "lock_kind (Serve req) = Reading" "buffer_ok req"
  shows "abstract_op (cap r) (times env) req (abs_map r) (answer_of env req r) (abs_map r)"
proof -
  have good: "good_request req" using assms(4) by (simp add: good_request_kind)
  show ?thesis
  proof (cases req)
    case (Find key)
    with good obtain k where "key = Some k" by (auto elim!: valid_keyE)
    with find_abstract[OF assms(1-3), of k] good Find show ?thesis by simp
  next
    case (Get key out ots)
    with good obtain k o' where "key = Some k" "out = Some o'" by (auto elim!: valid_keyE)
    with get_abstract[OF assms(1-3), of k o' ots] good assms(5) Get show ?thesis by simp
  qed (use assms(4) in \<open>auto split: if_splits\<close>)
qed

text \<open>A second section leaves the map alone or lets an expired item vanish.\<close>

lemma second_section:
  assumes wf: "table_wf r" and env: "alone env" "locks_ok env" and t: "\<And>req. t \<noteq> Serve req"
  shows "abs_map (write_section env t r) = abs_map r \<or>
    (\<exists>k it now. abs_map r k = Some it \<and> now \<in> times env \<and> item_expired it now \<and>
       abs_map (write_section env t r) = (abs_map r)(k := None))"
proof -
  have a: "acquired_write env (fresh r) = r" using env(1) by simp
  have l: "wrlock_rc env (hist (fresh r)) = 0" using env(2) by (simp add: locks_ok_def)
  have wa: "table_wf (acquired_write env (fresh r))" using wf a by simp
  show ?thesis
  proof (cases t)
    case (Serve req)
    with t show ?thesis by blast
  next
    case (Count hit c)
    with wf a l show ?thesis by (simp add: mem_add_get_metrics)
  next
    case (Remove key c)
    from get_expired_spec[OF wa l, of key c] show ?thesis
      unfolding Remove a by (auto simp: times_def split: option.splits if_splits)
  qed
qed

section \<open>A whole run\<close>

lemma table_of_run:
  assumes "run r0 s l" "table_wf r0"
  shows "table_wf (in_turn (completed s) r0)" "cap (in_turn (completed s) r0) = cap r0"
proof -
  have "table_inv (capacity (hdr r0)) (in_turn (completed s) r0)"
    using reachable_inv[OF run_reachable[OF assms(1)]] assms(2)
    by (intro table_inv_in_turn) (auto simp: data_inv_def table_inv_def)
  then show "table_wf (in_turn (completed s) r0)" "cap (in_turn (completed s) r0) = cap r0"
    by (simp_all add: table_inv_def)
qed

text \<open>A step that completes no section leaves the table alone.\<close>

definition table_now :: "region \<Rightarrow> system \<Rightarrow> region" where
  "table_now r0 s = in_turn (completed s) r0"

lemma table_now_frame [simp]:
  "table_now r0 (move i p s) = table_now r0 s" "table_now r0 (s\<lparr>shared_mem := r\<rparr>) = table_now r0 s"
  "table_now r0 (s\<lparr>lock_readers := c\<rparr>) = table_now r0 s" "table_now r0 (s\<lparr>lock_writer := b\<rparr>) = table_now r0 s"
  "table_now r0 (s\<lparr>shared_mem := r, lock_writer := b, completed := (env, t) # completed s\<rparr>)
     = write_section env t (table_now r0 s)"
  by (simp_all add: table_now_def)

lemma silent_linear: "lstep s None s' \<Longrightarrow> table_now r0 s' = table_now r0 s"
  by (cases s "None :: entry option" s' rule: lstep.cases) simp_all

lemma expiry_linear:
  assumes wf: "table_wf (table_now r0 s)" and env: "alone env" "locks_ok env" and t: "\<And>req. t \<noteq> Serve req"
    and s': "table_now r0 s' = write_section env t (table_now r0 s)"
    and old: "abstract_history n m0 l (abs_map (table_now r0 s))"
  shows "abstract_history n m0 (Expiry (times env) # l) (abs_map (table_now r0 s'))"
  using second_section[OF wf env t]
proof (elim disjE exE conjE)
  assume "abs_map (write_section env t (table_now r0 s)) = abs_map (table_now r0 s)"
  with abstract_history.stay[OF old] show ?thesis by (simp only: s')
next
  fix k it now
  assume "abs_map (table_now r0 s) k = Some it" "now \<in> times env" "item_expired it now"
    and e: "abs_map (write_section env t (table_now r0 s)) = (abs_map (table_now r0 s))(k := None)"
  from abstract_history.vanish[OF old this(1-3)] show ?thesis by (simp only: s' e)
qed

lemma answer_linear:
  assumes r: "run r0 s l" "table_wf r0" and step: "lstep s (Some x) s'"
    and old: "abstract_history (cap r0) (abs_map r0) l (abs_map (table_now r0 s))"
  shows "abstract_history (cap r0) (abs_map r0) (x # l) (abs_map (table_now r0 s'))"
proof -
  note wf = table_of_run[OF r, folded table_now_def] and op = abstract_history.op[OF old]
  note inv = reachable_inv[OF run_reachable[OF r(1)]]
  from step show ?thesis
  proof cases
    case (refuse i req)
    then have "\<not> good_request req" by (simp add: good_request_kind)
    with op[OF abstract_op.refused] show ?thesis by (simp add: refuse(1,2))
  next
    case (no_lock i req)
    then have "good_request req" by (simp add: good_request_kind)
    with op[OF abstract_op.no_lock] show ?thesis by (simp add: no_lock(1,2))
  next
    case (read i req r env)
    have r': "shared_mem s = table_now r0 s"
      using reader_memory[OF _ _ read(3,4)] inv by (simp add: table_now_def)
    have "buffer_ok req" using run_buffers[OF r(1)] read(3) unfolding buffers_inv_def by blast
    from op[OF read_abstract[OF wf(1) read(5,6,4) this, unfolded wf(2)]] show ?thesis
      by (simp add: read(1,2) r')
  next
    case (written i req r env)
    have r': "r = table_now r0 s" using inv written(3) by (simp add: data_inv_def table_now_def)
    from op[OF written_abstract[OF wf(1) written(5,6,4), unfolded wf(2)]] show ?thesis
      by (simp add: written(1,2) r')
  next
    case (second i t r env)
    have "r = table_now r0 s" using inv second(3) by (simp add: data_inv_def table_now_def)
    then have "table_now r0 s' = write_section env t (table_now r0 s)" by (simp add: second(2))
    from expiry_linear[OF wf(1) second(6,7,5) this old] show ?thesis by (simp only: second(1))
  qed
qed

lemma run_linear:
  assumes "run r0 s l" "table_wf r0"
  shows "abstract_history (cap r0) (abs_map r0) l (abs_map (table_now r0 s))"
  using assms
proof (induction rule: run.induct)
  case begin_run
  then show ?case by (simp add: table_now_def start_def abstract_history.none)
qed (auto intro: answer_linear simp: silent_linear)

text \<open>The run of \<open>put_done\<close>, in which one process has stored a pair.\<close>

lemma put_done_run:
  "run r (put_done r) [Answer 1 (Put (Some ''a'') (Some ''x'') 0)
    (answer_of (sole_env 9) (Put (Some ''a'') (Some ''x'') 0) r) {9}]"
proof -
  let ?s1 = "move 1 (Waiting sample_put) (start r)"
  let ?s2 = "move 1 (Inside sample_put r) (?s1\<lparr>lock_writer := True\<rparr>)"
  let ?s3 = "move 1 Resting (?s2\<lparr>shared_mem := write_section (sole_env 9) sample_put r,
    lock_writer := False, completed := [(sole_env 9, sample_put)]\<rparr>)"
  have kind: "lock_kind sample_put = Writing"
    by (simp add: sample_put_def valid_key_argument_def valid_value_argument_def char_at_def
        strlen_def MAX_KEY_LEN_def MAX_VAL_LEN_def)
  have at1: "place_of (start r) 1 = Resting" and at2: "place_of ?s1 1 = Waiting sample_put"
    and at3: "place_of ?s2 1 = Inside sample_put r" by (simp_all add: start_def)
  have "lstep (start r) None ?s1" unfolding sample_put_def by (rule lstep.ask[OF at1]) simp
  moreover have "lstep ?s1 None ?s2" using lstep.wrlock[OF at2 kind] by (simp add: start_def)
  moreover have "lstep ?s2 (Some (Answer 1 (Put (Some ''a'') (Some ''x'') 0)
      (answer_of (sole_env 9) (Put (Some ''a'') (Some ''x'') 0) r) {9})) ?s3"
    using lstep.written[OF at3[unfolded sample_put_def] kind[unfolded sample_put_def] sole_env_ok(1,2), of 9]
    by (simp add: start_def sample_put_def times_def)
  ultimately have "run r ?s3 [Answer 1 (Put (Some ''a'') (Some ''x'') 0)
      (answer_of (sole_env 9) (Put (Some ''a'') (Some ''x'') 0) r) {9}]"
    by (meson run.intros)
  moreover have "?s3 = put_done r" by (simp add: put_done_def start_def move_def fun_eq_iff)
  ultimately show ?thesis by simp
qed

end
