(* ===== verification/Spec2Isabelle.thy ===== *)
theory Spec2Isabelle
  imports Programs BenchMain Barrier Legacy Linear
begin

text \<open>
  MemSync: a key-value cache in POSIX shared memory, for processes of one machine.

  \<^bold>\<open>The program.\<close>  A fixed region of 4 MiB holds a header, with the process-shared read-write lock
  and the counters, and an array of slots used as a hash table with linear probing.
  \<open>src/cache_engine.cpp\<close> is the engine: it opens or creates the region, and puts, gets, updates
  and deletes keys under the lock.  \<open>src/ui_bridge.cpp\<close> offers the operations as commands with
  JSON output; \<open>src/main.cpp\<close>, \<open>src/writer.cpp\<close>, \<open>src/reader.cpp\<close> and \<open>src/cleanup.cpp\<close> are
  demonstrations; \<open>bench/\<close> compares the cache with a server behind socket pairs; \<open>legacy/\<close> is an
  unused first version of the shared memory layer.

  \<^bold>\<open>How the model follows the code.\<close>  A struct is a record with the fields of the source, an
  \<open>enum\<close> a datatype, \<open>uint32_t\<close> and \<open>uint64_t\<close> are words of 32 and 64 bits, \<open>int32_t\<close> is a word
  compared through \<open>sint\<close>; a C string is a character list read up to its terminator.  Every
  function is a definition of the same name.  It takes an environment, which answers its calls
  to the operating system, the lock and the clock as functions of the history so far, and the
  state \<open>world\<close>: the mapped region and the history of this process.  Every failing call and early
  return is a branch; the calls are made in the order of the code, so that their history can be
  checked for leaks and for the discipline of the lock.  Other processes are the field \<open>others\<close>
  of the environment, which may change the region whenever this process acquires the lock; in
  \<open>Concurrency\<close> they are explicit.

  \<^bold>\<open>The theories.\<close>
  \<^item> \<open>Prelude\<close>, \<open>CString\<close>: machine integers, generic lemmas, C strings and \<open>strncpy\<close>.
  \<^item> \<open>Layout\<close>: constants of \<open>include/cache_engine.h\<close>, field offsets and sizes of the structures.
  \<^item> \<open>Probing\<close>: linear probing over an abstract view of the slots, a locale with the search
    invariant; \<open>Table\<close>: the region, the hash function, the table invariant \<open>table_wf\<close>, the map
    \<open>abs_map\<close> it represents, and the interpretation of the locale.
  \<^item> \<open>Search\<close>: \<open>find_slot_internal\<close>, \<open>find_key_locked\<close> and the loops of get, update and delete.
  \<^item> \<open>Maintenance\<close>: removal, eviction, reclamation, the slot writes.
  \<^item> \<open>Environ\<close>: events, environments, the lock and the clock; \<open>Operations\<close>: the exported operations.
  \<^item> \<open>Contracts\<close>: what each operation returns and stores on every branch, over \<open>abs_map\<close>;
    \<open>Discipline\<close>: the phases of the lock and the invariant over any sequence of requests.
  \<^item> \<open>Lifecycle\<close>: initialisation, validation, \<open>cache_open_shared\<close> and \<open>cache_close_shared\<close>;
    \<open>Resources\<close>: descriptors, mappings and names held along a history.
  \<^item> \<open>Concurrency\<close>: any number of processes as a step relation at the lock, with arbitrary memory
    contents while a write section is under way; mutual exclusion, stability of what a reader
    sees, agreement with the sequential execution of the sections, and progress; \<open>Linear\<close>: the
    answers of the operations as a history of an abstract cache.
  \<^item> \<open>Text\<close>: decimal numbers, \<open>strtoul\<close> and the parsers built on it, JSON and CSV writers with
    reference readers; \<open>Output\<close>: the standard streams; \<open>Telemetry\<close>: the report, in double
    precision; \<open>Bridge\<close>: the bridge; \<open>Drivers\<close>, \<open>Programs\<close>: the demonstrations and their facts.
  \<^item> \<open>Socket\<close>: \<open>transfer_all\<close>, the messages as bytes, server and client of the baseline; \<open>Session\<close>:
    the constructor and the shutdown of its sockets and threads; \<open>Benchmark\<close>: workloads and
    measurement, over the locale \<open>bench_store\<close> of a store, which both the cache and the socket
    server interpret; \<open>Barrier\<close>: the threads of a measurement as a step relation, with their mutex
    and condition variable; \<open>Reporting\<close>: percentiles, the processor's name, printed doubles;
    \<open>BenchMain\<close>: the \<open>main\<close> of the benchmark.
  \<^item> \<open>Legacy\<close>: the class \<open>SharedMemoryManager\<close>; its waiting loop may not return.
  \<^item> \<open>Samples\<close>: concrete regions and environments for the examples.

  \<^bold>\<open>What the theorems show.\<close>  The operations refine a finite map with expiry and eviction
  (C1 to C4, C10 to C13), and those of many processes are linearizable (C5); the table invariant,
  with the exact entry count, holds over any requests and interference (C6, C7); requests are always
  worked off and the lock is never misused (C8, C9); a refreshed entry survives a concurrent expiry
  check (C14).  A region is published last, and open, close and every program give back what they
  took (C15 to C20).  Search, counters, hash, slot addresses and telemetry are exact (C21 to C26).
  The demonstrations and the bridge print what is in the cache (C27 to C32).  The benchmark prints a
  faithful row for each combination (C33): its transfers are whole (C34), its clock covers exactly
  the measured operations (C35), its threads end (C36), its sockets are given back (C37) and its
  percentiles are exact (C38).  The legacy class gives back what it took and its lock waits exactly
  as long as it is interrupted (C39, C40).

  \<^bold>\<open>Bounds.\<close>  All loops terminate by a measure, most on the capacity, except the waiting loop of
  \<open>Legacy\<close> and the trial loop of \<open>BenchMain\<close>, partial functions whose domains C40 and C33
  characterise; no fuel is used.  Doubles are exact rationals rounded to 53 bits, without the
  bounds of the exponent, which no number here comes near.  The table invariant includes that the
  slots end below 4 GiB, the reach of a 32-bit offset; without it the capacity check is not enough
  (C25).  The read-write lock is not recovered when its holder dies, as the README says, and no
  step of the model kills a process.

  \<^bold>\<open>Not modelled.\<close>  What the operating system, the C++ runtime and the clock answer: those are
  arguments of the definitions.  Exhausted memory (\<open>std::bad_alloc\<close>) and signals.  The tests; the
  Python user interface, which runs the programs as subprocesses; \<open>errno\<close> beyond \<open>EEXIST\<close>,
  \<open>ENOENT\<close>, \<open>EINTR\<close> and \<open>ERANGE\<close>, the only codes examined.
\<close>

section \<open>The cache operations\<close>

text \<open>
  C1.  PUT implements its abstract specification: on a well-formed table, with arguments that
  fit and the write lock acquired, it succeeds; the map it leaves is the old map with room made
  (nothing removed unless the table is full of other keys; then every expired item removed, or,
  if none is expired, the oldest write) and the key bound to the value, the write time and the
  time to live.
\<close>

theorem put_stores:
  assumes "table_wf (acquired_write env w)" "key_fits key" "value_fits val"
    and "wrlock_rc env (hist w) = 0"
  shows "\<exists>w' m. cache_put_ttl env Mapped_base (Some key) (Some val) ttl w = (True, w') \<and>
     table_wf (mem w') \<and>
     room_made (reclaim_time env w) (acquired_write env w) (cstr key) m \<and>
     abs_map (mem w') = m(cstr key \<mapsto>
       \<lparr>item_value = cstr val, item_time = put_time env key w, item_ttl = ttl\<rparr>)"
proof -
  obtain ok w' where "cache_put_ttl env Mapped_base (Some key) (Some val) ttl w = (ok, w')"
    by fastforce
  with cache_put_ttl_spec[OF assms this] show ?thesis by (auto simp: put_result_def)
qed

theorem put_stores_witness:
  "\<exists>w' m. cache_put_ttl (sole_env 103) Mapped_base (Some ''n'') (Some ''u'') 7 three_entries
       = (True, w') \<and>
     table_wf (mem w') \<and> room_made 103 (mem three_entries) ''n'' m \<and>
     abs_map (mem w') = m(''n'' \<mapsto> \<lparr>item_value = ''u'', item_time = 103, item_ttl = 7\<rparr>)"
  using put_stores[of "sole_env 103" three_entries "''n''" "''u''" 7]
  by (simp add: reclaim_time_def put_time_def)

text \<open>
  C2.  GET answers from the map of the region it reads: it reports the key found exactly when the
  map holds an item for it that is not expired at the clock reading, and then the buffer holds
  the item's value as a terminated string and the timestamp is the item's; otherwise both out
  parameters are untouched.
\<close>

theorem get_answers:
  assumes "table_wf (acquired_read env w)" "key_fits key" "MAX_VAL_LEN \<le> length out"
    and "rdlock_rc env (hist w) = 0"
  shows "\<exists>w'.
     (case abs_map (acquired_read env w) (cstr key) of
        None \<Rightarrow> cache_get env Mapped_base (Some key) (Some out) ots w = (False, Some out, ots, w')
      | Some it \<Rightarrow>
          if item_expired it (get_time env w)
          then cache_get env Mapped_base (Some key) (Some out) ots w = (False, Some out, ots, w')
          else \<exists>out'. cache_get env Mapped_base (Some key) (Some out) ots w
                  = (True, Some out', map_option (\<lambda>_. item_time it) ots, w') \<and>
                 cstr out' = item_value it \<and> length out' = length out)"
proof (cases "abs_map (acquired_read env w) (cstr key)")
  case None
  show ?thesis
    by (rule cache_get_absent[OF assms(1,2,4) None, of out ots]) (simp add: None)
next
  case (Some it)
  show ?thesis
  proof (cases "item_expired it (get_time env w)")
    case True
    show ?thesis
      by (rule cache_get_expired[OF assms(1,2,4) Some True, of out ots]) (simp add: Some True)
  next
    case False
    show ?thesis
      by (rule cache_get_hit[OF assms(1,2,4) Some False, of out ots])
        (use assms(3) in \<open>simp add: Some False copied_out_def\<close>)
  qed
qed

theorem get_answers_witness:
  "\<exists>w' out'. cache_get (sole_env 104) Mapped_base (Some ''k'') (Some (replicate 256 NUL)) (Some 0)
       one_entry = (True, Some out', Some 100, w') \<and> cstr out' = ''v''"
  using get_answers[of "sole_env 104" one_entry "''k''" "replicate 256 NUL" "Some 0"]
  by (auto simp: MAX_VAL_LEN_def get_time_def item_expired_def)

text \<open>
  C3.  UPDATE rewrites an item that is there and not expired: new value, new timestamp, same time
  to live; an expired item is removed and the call fails; an absent key is a failure that leaves
  the map alone.  It never makes or takes other bindings.
\<close>

theorem update_rewrites:
  assumes "table_wf (acquired_write env w)" "key_fits key" "value_fits val"
    and "wrlock_rc env (hist w) = 0"
  shows "\<exists>w'. table_wf (mem w') \<and>
     (case abs_map (acquired_write env w) (cstr key) of
        None \<Rightarrow> cache_update env Mapped_base (Some key) (Some val) w = (False, w') \<and>
                 abs_map (mem w') = abs_map (acquired_write env w)
      | Some it \<Rightarrow>
          if item_expired it (write_time env w)
          then cache_update env Mapped_base (Some key) (Some val) w = (False, w') \<and>
               abs_map (mem w') = (abs_map (acquired_write env w))(cstr key := None)
          else cache_update env Mapped_base (Some key) (Some val) w = (True, w') \<and>
               abs_map (mem w') = (abs_map (acquired_write env w))(cstr key \<mapsto>
                 it\<lparr>item_value := cstr val, item_time := update_stamp env w\<rparr>))"
proof -
  obtain ok w' where r: "cache_update env Mapped_base (Some key) (Some val) w = (ok, w')" by fastforce
  with cache_update_spec[OF assms] show ?thesis
    by (intro exI[of _ w']) (auto simp: updated_def split: option.splits if_splits)
qed

theorem update_rewrites_witness:
  "\<exists>w'. cache_update (sole_env 104) Mapped_base (Some ''k'') (Some ''u'') one_entry = (True, w') \<and>
     abs_map (mem w') = [''k'' \<mapsto> \<lparr>item_value = ''u'', item_time = 104, item_ttl = 5\<rparr>]"
  using update_rewrites[of "sole_env 104" one_entry "''k''" "''u''"]
  by (auto simp: write_time_def update_stamp_def item_expired_def)

text \<open>
  C4.  DELETE removes the binding of its key and no other, and reports whether there was one; an
  expired item counts as one.
\<close>

theorem delete_removes:
  assumes "table_wf (acquired_write env w)" "key_fits key" "wrlock_rc env (hist w) = 0"
  shows "\<exists>w'. cache_delete env Mapped_base (Some key) w
       = (abs_map (acquired_write env w) (cstr key) \<noteq> None, w') \<and>
     table_wf (mem w') \<and> abs_map (mem w') = (abs_map (acquired_write env w))(cstr key := None)"
proof -
  obtain ok w' where r: "cache_delete env Mapped_base (Some key) w = (ok, w')" by fastforce
  with cache_delete_spec[OF assms] show ?thesis by (intro exI[of _ w']) simp
qed

theorem delete_removes_witness:
  "\<exists>w'. cache_delete (sole_env 104) Mapped_base (Some ''k'') one_entry = (True, w') \<and>
     abs_map (mem w') = Map.empty"
  using delete_removes[of "sole_env 104" one_entry "''k''"]
  by auto

text \<open>
  C12.  What was stored is what is read: after a successful PUT, a GET of the same key (by any
  process whose environment leaves the region alone) returns the stored value and the time of
  the PUT, as long as the entry has not expired at the reader's clock.
\<close>

theorem put_then_get:
  assumes "table_wf (acquired_write env w)" "key_fits key" "value_fits val"
    and "wrlock_rc env (hist w) = 0" "alone env'" "locks_ok env'" "MAX_VAL_LEN \<le> length out"
    and put: "cache_put_ttl env Mapped_base (Some key) (Some val) ttl w = (ok, w')"
    and live: "\<not> item_expired
      \<lparr>item_value = cstr val, item_time = put_time env key w, item_ttl = ttl\<rparr> (get_time env' w')"
  shows "\<exists>out' w''. cache_get env' Mapped_base (Some key) (Some out) (Some ts) w'
       = (True, Some out', Some (put_time env key w), w'') \<and> cstr out' = cstr val"
proof -
  have lock: "rdlock_rc env' (hist w') = 0" using assms(6) by (simp add: locks_ok_def)
  have r: "put_result env key val ttl w w'" using cache_put_ttl_spec[OF assms(1-4) put] by simp
  then have wf: "table_wf (acquired_read env' w')" using assms(5) by (simp add: put_result_def)
  have it: "abs_map (acquired_read env' w') (cstr key)
      = Some \<lparr>item_value = cstr val, item_time = put_time env key w, item_ttl = ttl\<rparr>"
    using r assms(5) by (auto simp: put_result_def)
  show ?thesis
    by (rule cache_get_hit[OF wf assms(2) lock it live, of out "Some ts"])
      (use assms(7) in \<open>auto simp: copied_out_def\<close>)
qed

theorem put_then_get_witness:
  "\<exists>out' w''. cache_get (sole_env 104) Mapped_base (Some ''k'') (Some (replicate 256 NUL)) (Some 0)
       one_entry = (True, Some out', Some 100, w'') \<and> cstr out' = ''v''"
  using put_then_get[of "sole_env 100" sample_world "''k''" "''v''" "sole_env 104"
      "replicate 256 NUL" 5 "fst (cache_put_ttl (sole_env 100) Mapped_base (Some ''k'') (Some ''v'') 5 sample_world)"
      one_entry 0]
  by (auto simp: one_entry_def MAX_VAL_LEN_def put_time_def get_time_def item_expired_def
      full_for_def)

text \<open>
  C13.  An entry lives for its time to live: once every clock reading is past it, a GET fails,
  leaves the buffers alone, and the entry is gone from the map; nothing else is.
\<close>

theorem get_removes_expired:
  assumes "table_wf (mem w)" "key_fits key" "alone env" "locks_ok env"
    and it: "abs_map (mem w) (cstr key) = Some it" and ex: "\<And>h. item_expired it (time_now env h)"
  shows "\<exists>w'. cache_get env Mapped_base (Some key) (Some out) ots w = (False, Some out, ots, w') \<and>
     table_wf (mem w') \<and> abs_map (mem w') = (abs_map (mem w))(cstr key := None)"
proof -
  have lock: "rdlock_rc env (hist w) = 0" using assms(4) by (simp add: locks_ok_def)
  have wf: "table_wf (acquired_read env w)" using assms(1,3) by simp
  have it': "abs_map (acquired_read env w) (cstr key) = Some it" using it assms(3) by simp
  have ex': "item_expired it (get_time env w)" using ex by (simp add: get_time_def)
  from wf assms(2) lock it' ex' obtain u where
    u: "cache_get env Mapped_base (Some key) (Some out) ots w =
       (False, Some out, ots, get_expired env key (extra (acquired_read env w) (cstr key)) u)"
      "mem u = acquired_read env w"
    by (rule cache_get_expired)
  have wfu: "table_wf (acquired_write env u)" using u(2) assms(1,3) by simp
  have "wrlock_rc env (hist u) = 0" using assms(4) by (simp add: locks_ok_def)
  from get_expired_spec[OF wfu this] u it ex assms(3) show ?thesis by simp
qed

theorem get_removes_expired_witness:
  "\<exists>w'. cache_get (sole_env 105) Mapped_base (Some ''k'') (Some ''buffer'') None one_entry
       = (False, Some ''buffer'', None, w') \<and> abs_map (mem w') = Map.empty"
  using get_removes_expired[of one_entry "''k''" "sole_env 105"
      "\<lparr>item_value = ''v'', item_time = 100, item_ttl = 5\<rparr>" "''buffer''" None]
  by (auto simp: item_expired_def)

text \<open>
  C6.  Whatever requests a process serves, and whatever well-formed tables of the same capacity
  the other processes leave between its critical sections, the table stays well-formed: the
  layout is kept, every slot's arrays keep their sizes and terminators, the header's count is
  the number of occupied slots, every key is in one slot only, and no free slot lies between a
  key's home and its slot.
\<close>

theorem table_stays_well_formed:
  assumes "peers_ok env" "table_wf (mem w)"
  shows "table_wf (mem (serve_all env base reqs w)) \<and>
     capacity (hdr (mem (serve_all env base reqs w))) = capacity (hdr (mem w))"
  using table_inv_serve_all[OF assms(1), of "capacity (hdr (mem w))" w base reqs] assms(2)
  by (simp add: table_inv_def)

theorem table_stays_well_formed_witness:
  "table_wf (mem (serve_all (sole_env 9) Mapped_base
     [Put (Some ''a'') (Some ''x'') 0, Get (Some ''a'') (Some ''buffer'') None,
      Update (Some ''i'') (Some ''y''), Delete (Some ''a''), Find (Some ''q'')] three_entries))"
  using table_stays_well_formed[of "sole_env 9" three_entries] by simp

text \<open>
  C9.  Lock discipline: if the unlock call does its work, a process that starts without the lock
  never takes it twice, never releases it unheld, and is without it after every sequence of
  requests, whichever of them fail and however they fail.
\<close>

theorem lock_released:
  assumes "\<And>h. unlock_rc env h = 0" "phase (hist w) = Idle"
  shows "phase (hist (serve_all env base reqs w)) = Idle"
  using phase_serve_all[of env w base reqs] assms by (simp add: unlock_ok_def)

theorem lock_released_witness:
  "phase (hist (serve_all (sole_env 9) Mapped_base
     [Put (Some ''a'') (Some ''x'') 0, Get (Some ''a'') (Some ''buffer'') None] sample_world)) = Idle"
  using lock_released[of "sole_env 9" sample_world] by simp

text \<open>
  C10.  The eviction victim is the entry written longest ago, the lowest slot among equals; the
  table loses that entry's key and nothing else, and eviction fails only on a table without
  entries.
\<close>

theorem eviction_takes_oldest:
  assumes wf: "table_wf r" and some: "entry_count (hdr r) \<noteq> 0"
  shows "\<exists>p r'. evict_oldest_write r = (True, r') \<and> p < cap r \<and> slot_state (slots r ! p) = OCCUPIED \<and>
     (\<forall>q<cap r. slot_state (slots r ! q) = OCCUPIED \<longrightarrow>
        timestamp (slots r ! p) < timestamp (slots r ! q) \<or>
        timestamp (slots r ! p) = timestamp (slots r ! q) \<and> p \<le> q) \<and>
     table_wf r' \<and> abs_map r' = (abs_map r)(cstr (slot_key (slots r ! p)) := None)"
proof -
  have "0 < count_if occupied (table r)"
    using some wf_count[OF wf] by (metis gr_zeroI unat_eq_zero)
  with wf obtain p where p: "oldest_below r (cap r) p" "evict_oldest_write r = (True, remove_entry r p)"
    by (rule evict_oldest_write_spec)
  then have o: "p < cap r" "occupied (slots r ! p)" by (simp_all add: oldest_below_def)
  have "table_wf (remove_entry r p)" by (rule wf_remove_entry[OF wf o])
  moreover have "abs_map (remove_entry r p) = (abs_map r)(cstr (slot_key (slots r ! p)) := None)"
    by (rule abs_remove_entry[OF wf o])
  ultimately show ?thesis
    using p o by (intro exI[of _ p] exI[of _ "remove_entry r p"])
      (auto simp: oldest_below_def less_eq_prod_def)
qed

theorem eviction_takes_oldest_witness:
  "\<exists>p r'. evict_oldest_write (mem three_entries) = (True, r') \<and>
     abs_map r' = (abs_map (mem three_entries))(cstr (slot_key (slots (mem three_entries) ! p)) := None)"
proof -
  have "entry_count (hdr (mem three_entries)) \<noteq> 0"
    using entry_count_card[of "mem three_entries"] by auto
  from eviction_takes_oldest[OF three_entries(1) this] show ?thesis by blast
qed

text \<open>
  C11.  Reclamation removes exactly the items that are expired.
\<close>

theorem reclamation_keeps_live:
  assumes "table_wf r"
  shows "table_wf (reclaim_expired r now) \<and>
     (\<forall>k. abs_map (reclaim_expired r now) k =
        (case abs_map r k of
           None \<Rightarrow> None
         | Some it \<Rightarrow> if item_expired it now then None else Some it))"
  using wf_reclaim_expired[OF assms] abs_reclaim_expired[OF assms] by (simp add: live_items_def)

theorem reclamation_keeps_live_witness:
  "abs_map (reclaim_expired (mem three_entries) 106) ''k'' = None \<and>
   abs_map (reclaim_expired (mem three_entries) 106) ''m''
     = Some \<lparr>item_value = ''v'', item_time = 102, item_ttl = 9\<rparr>"
  using reclamation_keeps_live[of "mem three_entries" 106] by (simp add: item_expired_def)

text \<open>
  The header's \<open>entry_count\<close> is the number of keys in the cache, and never exceeds the
  capacity.
\<close>

theorem entry_count_exact:
  assumes "table_wf r"
  shows "unat (entry_count (hdr r)) = card (dom (abs_map r)) \<and>
     entry_count (hdr r) \<le> capacity (hdr r)"
  using entry_count_card[OF assms] wf_entry_count[OF assms] by (simp add: word_le_nat_alt)

theorem entry_count_exact_witness: "unat (entry_count (hdr (mem three_entries))) = 3"
  using entry_count_exact[of "mem three_entries"] by simp

text \<open>
  C14.  The second look of a GET at an expired key is safe against a concurrent refresh: under
  the write lock the key is looked up again in the region found then, and is removed only if the
  item there is expired at a new clock reading; every other binding of that region survives, and
  exactly one miss is counted.
\<close>

theorem refreshed_entry_survives:
  assumes "table_wf (acquired_write env u)" "wrlock_rc env (hist u) = 0"
  shows "table_wf (mem (get_expired env key c u)) \<and>
     abs_map (mem (get_expired env key c u)) =
       (case abs_map (acquired_write env u) (cstr key) of
          Some it \<Rightarrow> if item_expired it (time_now env (Write_lock 0 # hist u))
                     then (abs_map (acquired_write env u))(cstr key := None)
                     else abs_map (acquired_write env u)
        | None \<Rightarrow> abs_map (acquired_write env u)) \<and>
     total_misses (hdr (mem (get_expired env key c u)))
       = total_misses (hdr (acquired_write env u)) + 1 \<and>
     total_hits (hdr (mem (get_expired env key c u))) = total_hits (hdr (acquired_write env u))"
  using get_expired_spec[OF assms, of key c] by simp

theorem refreshed_entry_survives_witness:
  "abs_map (mem (get_expired (sole_env 104) ''k'' 0 one_entry))
     = [''k'' \<mapsto> \<lparr>item_value = ''v'', item_time = 100, item_ttl = 5\<rparr>]"
  using refreshed_entry_survives[of "sole_env 104" one_entry "''k''" 0]
  by (simp add: item_expired_def)

text \<open>
  C22.  A GET by the only process counts exactly one hit or one miss, in agreement with what it
  returns, and adds to the collision counter the number of extra slots its search looked at (64
  bits, wrapping); the search that is repeated for an expired key adds nothing.
\<close>

theorem get_counts_once:
  assumes wf: "table_wf (mem w)" and k: "key_fits key" and al: "alone env" and lk: "locks_ok env"
  shows "\<exists>found out' ots' w'.
     cache_get env Mapped_base (Some key) (Some out) ots w = (found, out', ots', w') \<and>
     total_hits (hdr (mem w')) = total_hits (hdr (mem w)) + (if found then 1 else 0) \<and>
     total_misses (hdr (mem w')) = total_misses (hdr (mem w)) + (if found then 0 else 1) \<and>
     total_collisions (hdr (mem w'))
       = total_collisions (hdr (mem w)) + ucast (extra (mem w) (cstr key))"
proof -
  have a: "acquired_read env w = mem w" using al by simp
  have wf': "table_wf (acquired_read env w)" and lock: "rdlock_rc env (hist w) = 0"
    using wf al lk by (simp_all add: locks_ok_def)
  have wl: "wrlock_rc env h = 0" for h using lk by (simp add: locks_ok_def)
  note metrics = mem_add_get_metrics wl acquired_alone[OF al]
  show ?thesis
  proof (cases "abs_map (acquired_read env w) (cstr key)")
    case None
    show ?thesis
      by (rule cache_get_absent[OF wf' k lock None, of out ots]) (auto simp: metrics)
  next
    case (Some it)
    show ?thesis
    proof (cases "item_expired it (get_time env w)")
      case False
      show ?thesis
        by (rule cache_get_hit[OF wf' k lock Some False, of out ots]) (auto simp: metrics)
    next
      case True
      from wf' k lock Some True obtain u where
        u: "cache_get env Mapped_base (Some key) (Some out) ots w =
           (False, Some out, ots, get_expired env key (extra (acquired_read env w) (cstr key)) u)"
          "mem u = acquired_read env w"
        by (rule cache_get_expired)
      have "table_wf (acquired_write env u)" using u(2) wf al by simp
      from get_expired_spec[OF this wl, of key "extra (acquired_read env w) (cstr key)"] u al
      show ?thesis by auto
    qed
  qed
qed

theorem get_counts_once_witness:
  "\<exists>found out' ots' w'.
     cache_get (sole_env 104) Mapped_base (Some ''k'') (Some ''buffer'') None one_entry
       = (found, out', ots', w') \<and>
     total_hits (hdr (mem w')) = total_hits (hdr (mem one_entry)) + (if found then 1 else 0)"
  using get_counts_once[of one_entry "''k''" "sole_env 104" "''buffer''" None] by fastforce



text \<open>
  C26.  The telemetry report is printed once, from a snapshot under the read lock that changes
  nothing.  Although it is computed in double precision, the warning appears exactly when more
  than seven tenths of the slots are occupied, and on a well-formed table the printed load factor
  and hit ratio are within 0.0051 percent of the exact ones (the hit ratio as long as the number
  of queries fits in 64 bits).
\<close>

theorem telemetry_report:
  assumes "rdlock_rc env (hist w) = 0" "table_wf (acquired_read env w)"
    and "h = hdr (acquired_read env w)"
  shows "mem (cache_print_telemetry env Mapped_base w) = acquired_read env w \<and>
     stdout_of (hist (cache_print_telemetry env Mapped_base w)) =
       stdout_of (hist w) @ concat (telemetry_lines h) \<and>
     (warning_text \<in> set (telemetry_lines h) \<longleftrightarrow>
        7 * unat (capacity h) < 10 * unat (entry_count h)) \<and>
     \<bar>of_nat (hundredths (load_factor h))
        - of_nat (unat (entry_count h)) / of_nat (unat (capacity h)) * 10000\<bar> < (51 / 100 :: rat) \<and>
     (0 < unat (total_hits h) + unat (total_misses h) \<and>
      unat (total_hits h) + unat (total_misses h) < 2 ^ 64 \<longrightarrow>
        \<bar>of_nat (hundredths (hit_ratio h)) - of_nat (unat (total_hits h))
          / of_nat (unat (total_hits h) + unat (total_misses h)) * 10000\<bar> < (51 / 100 :: rat))"
proof (intro conjI impI)
  note t = telemetry_acquired[OF assms(1), folded assms(3)]
  show "mem (cache_print_telemetry env Mapped_base w) = acquired_read env w"
    "stdout_of (hist (cache_print_telemetry env Mapped_base w)) =
       stdout_of (hist w) @ concat (telemetry_lines h)" by (rule t)+
  have cap: "0 < capacity h"
    using layout_wf[OF assms(2)] by (simp add: assms(3) layout_ok_def word_less_nat_alt)
  show "warning_text \<in> set (telemetry_lines h) \<longleftrightarrow> 7 * unat (capacity h) < 10 * unat (entry_count h)"
    using cap by (simp add: warning_line load_factor_warns)
  have "entry_count h \<le> capacity h"
    using wf_entry_count[OF assms(2)] by (simp add: assms(3) word_le_nat_alt)
  from load_factor_printed[OF cap this]
  show "\<bar>of_nat (hundredths (load_factor h))
      - of_nat (unat (entry_count h)) / of_nat (unat (capacity h)) * 10000\<bar> < (51 / 100 :: rat)" .
qed (erule conjE, rule hit_ratio_printed)

theorem telemetry_report_witness:
  "warning_text \<notin> set (telemetry_lines (hdr (mem one_entry))) \<and>
   stdout_of (hist (cache_print_telemetry (sole_env 9) Mapped_base one_entry)) =
     stdout_of (hist one_entry) @ concat (telemetry_lines (hdr (mem one_entry)))"
  using telemetry_report[of "sole_env 9" one_entry "hdr (mem one_entry)"] entry_count_card[of "mem one_entry"]
  by simp

text \<open>
  The exported \<open>find_slot\<close> holds the read lock while it searches, changes nothing in the
  region, and gives \<open>-1\<close> without touching the lock when the base pointer is null or the key is
  null, empty or too long.
\<close>

theorem find_slot_read_only:
  "(base = Null_base \<or> \<not> valid_key_argument key \<longrightarrow> find_slot env base key w = (- 1, w)) \<and>
   (rdlock_rc env (hist w) \<noteq> 0 \<longrightarrow>
      fst (find_slot env base key w) = - 1 \<and> mem (snd (find_slot env base key w)) = mem w) \<and>
   (rdlock_rc env (hist w) = 0 \<and> base = Mapped_base \<and> valid_key_argument key \<longrightarrow>
      fst (find_slot env base key w) = fst (find_slot_internal (Some (acquired_read env w)) key None) \<and>
      mem (snd (find_slot env base key w)) = acquired_read env w)"
  using lock_for_read_fails[of env w]
  by (auto simp: find_slot_def Let_def split_beta lock_for_read_ok)

theorem find_slot_read_only_witness:
  "find_slot (sole_env 1) Null_base (Some ''k'') one_entry = (- 1, one_entry) \<and>
   mem (snd (find_slot (sole_env 1) Mapped_base (Some ''k'') one_entry)) = mem one_entry"
  using find_slot_read_only[of Null_base "Some ''k''" "sole_env 1" one_entry]
    find_slot_read_only[of Mapped_base "Some ''k''" "sole_env 1" one_entry]
  by (simp add: valid_key_fits)

definition bad_key :: "char list option \<Rightarrow> bool" where
  "bad_key key \<longleftrightarrow> (case key of None \<Rightarrow> True | Some k \<Rightarrow> strlen k = 0 \<or> 64 \<le> strlen k)"

definition bad_value :: "char list option \<Rightarrow> bool" where
  "bad_value val \<longleftrightarrow> (case val of None \<Rightarrow> True | Some v \<Rightarrow> 256 \<le> strlen v)"

lemma bad_key_iff: "bad_key key \<longleftrightarrow> \<not> valid_key_argument key"
  by (cases key)
    (auto simp: bad_key_def valid_key_argument_def MAX_KEY_LEN_def strlen_def cstr_empty_iff)

lemma bad_value_iff: "bad_value val \<longleftrightarrow> \<not> valid_value_argument val"
  by (cases val) (auto simp: bad_value_def valid_value_argument_def MAX_VAL_LEN_def)

text \<open>
  Bad arguments are refused before anything happens: with a null base, a null, empty or
  64-byte key, a null or 256-byte value, or (for GET) a null buffer, every operation fails and
  leaves the state, the events included, as it was.
\<close>

theorem bad_arguments_refused:
  "(base = Null_base \<or> bad_key key \<or> bad_value val \<longrightarrow>
      cache_put_ttl env base key val ttl w = (False, w) \<and> cache_update env base key val w = (False, w)) \<and>
   (base = Null_base \<or> bad_key key \<or> out = None \<longrightarrow>
      cache_get env base key out ots w = (False, out, ots, w)) \<and>
   (base = Null_base \<or> bad_key key \<longrightarrow> cache_delete env base key w = (False, w))"
  by (simp add: bad_key_iff bad_value_iff cache_put_ttl_rejects cache_update_rejects
      cache_get_rejects cache_delete_rejects)

theorem bad_arguments_refused_witness:
  "cache_put_ttl (sole_env 1) Mapped_base (Some '''') (Some ''v'') 0 one_entry = (False, one_entry) \<and>
   cache_delete (sole_env 1) Mapped_base None one_entry = (False, one_entry)"
  using bad_arguments_refused[of Mapped_base "Some ''''" "Some ''v''" "sole_env 1" 0 one_entry]
    bad_arguments_refused[of Mapped_base None None "sole_env 1" 0 one_entry]
  by (simp add: bad_key_def strlen_def)

text \<open>
  If the lock cannot be acquired, every operation fails and the region is left alone.
\<close>

theorem lock_failure_harmless:
  assumes "rdlock_rc env (hist w) \<noteq> 0" "wrlock_rc env (hist w) \<noteq> 0"
  shows "mem (serve_request env base req w) = mem w \<and>
     \<not> fst (cache_put_ttl env base key val ttl w) \<and> \<not> fst (cache_get env base key out ots w) \<and>
     \<not> fst (cache_update env base key val w) \<and> \<not> fst (cache_delete env base key w)"
  using cache_put_ttl_unlocked[OF assms(2)] cache_get_unlocked[OF assms(1)]
    cache_update_unlocked[OF assms(2)] cache_delete_unlocked[OF assms(2)]
    lock_for_read_fails[OF assms(1)]
  by (cases req) (auto simp: find_slot_def split_beta)

definition stuck_env :: env where
  "stuck_env = (sole_env 0)\<lparr>rdlock_rc := (\<lambda>h. 35), wrlock_rc := (\<lambda>h. 35)\<rparr>"

theorem lock_failure_harmless_witness:
  "mem (serve_request stuck_env Mapped_base (Delete (Some ''k'')) one_entry) = mem one_entry \<and>
   \<not> fst (cache_delete stuck_env Mapped_base (Some ''k'') one_entry)"
  using lock_failure_harmless[of stuck_env one_entry Mapped_base "Delete (Some ''k'')"
      "Some ''k''"]
  by (simp add: stuck_env_def)

section \<open>Addresses and hashing\<close>

text \<open>
  C23.  The hash is the djb2 polynomial over the key's bytes read as signed characters, reduced
  modulo two to the 32, and then modulo the capacity; it depends on the bytes before the
  terminator only, and is a slot number.
\<close>

theorem hash_is_djb2:
  "uint (hash_key key n) = (djb2 (cstr key) mod 2 ^ 32) mod uint n \<and>
   (0 < n \<longrightarrow> unat (hash_key key n) < unat n)"
proof -
  have "uint (hash_key key n) = (djb2 (cstr key) mod 2 ^ 32) mod uint n"
    by (simp add: hash_key_def hash_loop_djb2 uint_mod unsigned_of_int take_bit_eq_mod)
  moreover have "0 < n \<longrightarrow> unat (hash_key key n) < unat n"
    using hash_key_less[of n key] by (simp add: word_less_nat_alt)
  ultimately show ?thesis by blast
qed

theorem hash_is_djb2_witness: "unat (hash_key ''k'' 3) < 3"
  using hash_is_djb2[of "''k''" 3] by simp

text \<open>
  C24.  In a well-formed layout every slot lies inside the mapping, behind the header, and two
  different slots do not overlap.
\<close>

theorem slots_disjoint:
  assumes "layout_ok r" "unat i < cap r" "unat j < cap r" "i \<noteq> j"
  shows "sizeof_CacheHeader \<le> unat (entry_offset (hdr r) i) \<and>
     unat (entry_offset (hdr r) i) + sizeof_CacheEntry
       \<le> sizeof_CacheHeader + length (slots r) * sizeof_CacheEntry \<and>
     (unat (entry_offset (hdr r) i) + sizeof_CacheEntry \<le> unat (entry_offset (hdr r) j) \<or>
      unat (entry_offset (hdr r) j) + sizeof_CacheEntry \<le> unat (entry_offset (hdr r) i))"
proof -
  have off: "unat (entry_offset (hdr r) x) = 104 + unat x * 344" if "unat x < cap r" for x
    using assms(1) that by (simp add: unat_entry_offset layout_ok_def)
  have ne: "unat i \<noteq> unat j" using assms(4) by (simp add: word_unat_eq_iff)
  have l: "cap r \<le> length (slots r)" by (rule layout_cap_le[OF assms(1)])
  show ?thesis unfolding off[OF assms(2)] off[OF assms(3)] using assms(2,3) ne l by auto
qed

theorem slots_disjoint_witness:
  "unat (entry_offset (hdr sample_region) 0) + 344 \<le> unat (entry_offset (hdr sample_region) 2) \<or>
   unat (entry_offset (hdr sample_region) 2) + 344 \<le> unat (entry_offset (hdr sample_region) 0)"
  using slots_disjoint[of sample_region 0 2] layout_wf[OF sample_wf] by simp

text \<open>
  C25.  The capacity check does not bound the 32-bit offset of \<open>get_entry_ptr\<close>: it accepts a
  region of slightly more than four gigabytes with 12485372 slots, whose header passes the
  layout check, and whose last slot is addressed at offset 432, inside slot 0.
\<close>

theorem capacity_check_admits_wrap:
  "valid_capacity 4294968072 12485372 \<and>
   cache_validate_layout (Some (fresh_region 4294968072 12485372)) 4294968072 \<and>
   unat (entry_offset (hdr (fresh_region 4294968072 12485372)) 0) = 104 \<and>
   unat (entry_offset (hdr (fresh_region 4294968072 12485372)) 12485371) = 432 \<and>
   432 < 104 + sizeof_CacheEntry"
proof -
  have v: "valid_capacity 4294968072 12485372"
    by (simp add: valid_capacity_nat slot_room_def)
  then show ?thesis
    using fresh_region_valid[OF v] by (simp add: unat_entry_offset)
qed

section \<open>Creating and attaching\<close>



text \<open>
  C19.  \<open>cache_initialize_region\<close> succeeds only on a non-null region whose size holds the header
  and the slots, and then leaves the published empty table; when it fails, the region is
  untouched or is not accepted by the layout check.
\<close>

theorem initialization_result:
  "case cache_initialize_region env base sz cpc w of (ok, w') \<Rightarrow>
     (ok \<longrightarrow> base \<noteq> Null_base \<and> 0 < cpc \<and>
        sizeof_CacheHeader + unat cpc * sizeof_CacheEntry \<le> unat sz \<and> mem w' = fresh_region sz cpc) \<and>
     (\<not> ok \<longrightarrow> w' = w \<or> (\<forall>sz'. \<not> cache_validate_layout (Some (mem w')) sz'))"
proof -
  obtain ok w' where r: "cache_initialize_region env base sz cpc w = (ok, w')" by fastforce
  have "\<not> ok \<longrightarrow> w' = w \<or> (\<forall>sz'. \<not> cache_validate_layout (Some (mem w')) sz')"
    using cache_initialize_region_fails[of env base sz cpc w w'] unpublished_invalid r by auto
  moreover have "base \<noteq> Null_base \<and> 0 < cpc \<and>
      sizeof_CacheHeader + unat cpc * sizeof_CacheEntry \<le> unat sz \<and> mem w' = fresh_region sz cpc"
    if ok
  proof -
    from that r have r': "cache_initialize_region env base sz cpc w = (True, w')" by simp
    then have "base \<noteq> Null_base" by (auto simp: cache_initialize_region_def)
    moreover from cache_initialize_region_ok[OF r'] have
      m: "mem w' = fresh_region sz cpc" and v: "valid_capacity sz cpc" by blast+
    from v have "104 \<le> unat sz" "unat cpc \<le> (unat sz - 104) div 344" "0 < unat cpc"
      by (simp_all add: valid_capacity_nat slot_room_def)
    moreover then have "unat cpc * 344 \<le> unat sz - 104"
      using div_times_less_eq_dividend[of "unat sz - 104" 344] by (meson mult_le_mono1 order_trans)
    ultimately show ?thesis using m by (simp add: word_less_nat_alt)
  qed
  ultimately show ?thesis by (simp add: r)
qed

theorem initialization_result_witness:
  "fst (cache_initialize_region (sample_os False 0 sample_region 9) Mapped_base 1136 3 sample_world) \<and>
   mem (snd (cache_initialize_region (sample_os False 0 sample_region 9) Mapped_base 1136 3
          sample_world)) = sample_region"
proof -
  let ?i = "cache_initialize_region (sample_os False 0 sample_region 9) Mapped_base 1136 3 sample_world"
  have "fst ?i"
    using sample_capacity by (simp add: cache_initialize_region_def cache_init_lock_def Let_def)
  with initialization_result[where env = "sample_os False 0 sample_region 9" and base = Mapped_base
      and sz = 1136 and cpc = 3 and w = sample_world]
  show ?thesis by (simp add: split_beta sample_region_def)
qed





text \<open>
  C17.  What an open cache is: if this call created it, the region is the published empty table
  of 1000 slots, and every request sequence keeps it a well-formed table of that capacity; if it
  was attached, the layout of the mapped region passed the check before the lock was used, and
  the entry count read under the lock does not exceed the capacity.
\<close>

theorem open_delivers:
  assumes "cache_open_shared env (Some m) create nm w = (True, Some m', w')" "peers_ok env"
  shows "(map_created m' \<longrightarrow> create \<and> abs_map (mem w') = Map.empty \<and>
       (\<forall>reqs. table_wf (mem (serve_all env Mapped_base reqs w')) \<and>
               cap (mem (serve_all env Mapped_base reqs w')) = 1000)) \<and>
     (\<not> map_created m' \<longrightarrow> entry_count (hdr (mem w')) \<le> capacity (hdr (mem w')) \<and>
       (\<exists>h base r. mmap_r env h = Some (base, r) \<and>
          cache_validate_layout (Some r) CACHE_SHARED_MEMORY_SIZE))"
proof (cases rule: cache_open_shared_mapping[OF assms(1)])
  case (1 fd created base r)
  show ?thesis
  proof (cases created)
    case True
    note m = 1(4)[OF True] and cr = 1(3)[OF True]
    have inv: "table_inv CACHE_DEFAULT_CAPACITY (mem w')"
      unfolding m using fresh_region_wf[OF default_capacity_ok] by (simp add: table_inv_def)
    have "table_inv CACHE_DEFAULT_CAPACITY (mem (serve_all env Mapped_base reqs w'))" for reqs
      by (rule table_inv_serve_all[OF assms(2) inv])
    moreover have "abs_map (mem w') = Map.empty"
      unfolding m by (rule fresh_region_abs[OF default_capacity_ok])
    ultimately show ?thesis
      using 1(1) True cr by (simp add: table_inv_def CACHE_DEFAULT_CAPACITY_def)
  next
    case False
    with 1(1) 1(5)[OF False] show ?thesis by auto
  qed
qed

theorem open_delivers_witness:
  "cap (mem (serve_all (sample_os False 0 sample_region 9) Mapped_base
     [Put (Some ''k'') (Some ''v'') 0]
     (snd (snd (cache_open_shared (sample_os False 0 sample_region 9) (Some empty_mapping) True
        None sample_world))))) = 1000"
  using open_delivers[OF sample_os_creates, of 0 sample_region 9 empty_mapping sample_world] by simp

text \<open>
  A process that attaches to an object that is not published, or whose layout is not the
  one expected, fails without having used the lock.
\<close>

theorem attach_before_publication:
  assumes "\<And>h base r. mmap_r env h = Some (base, r) \<Longrightarrow>
      \<not> cache_validate_layout (Some r) CACHE_SHARED_MEMORY_SIZE"
    and "cache_open_shared env (Some m) False nm w = (ok, m', w')"
  shows "\<not> ok \<and> lock_events (hist w') = lock_events (hist w)"
  using assms by (rule attach_unpublished)

theorem attach_before_publication_witness:
  "\<not> fst (cache_open_shared (sample_os True 4194304 (init_stage 4194304 1000 5) 9)
      (Some empty_mapping) False None sample_world)"
proof -
  let ?e = "sample_os True 4194304 (init_stage 4194304 1000 5) 9"
  obtain ok m' w' where r:
    "cache_open_shared ?e (Some empty_mapping) False None sample_world = (ok, m', w')"
    by (metis prod_cases3)
  have "5 \<le> Suc (length (init_writes 1000))" by (simp add: init_writes_def)
  then have "\<not> cache_validate_layout (Some (init_stage 4194304 1000 5)) CACHE_SHARED_MEMORY_SIZE"
    by (rule init_stage_unpublished)
  with attach_before_publication[OF _ r] r show ?thesis by simp
qed

section \<open>The bridge\<close>

text \<open>
  A run of the bridge, whatever its arguments and whatever fails, ends with the
  descriptors and mappings it started with, has closed or unmapped nothing else, and does not
  hold the lock; only \<open>init\<close> can leave a new name behind.
\<close>

theorem bridge_leaves_nothing:
  assumes "\<And>h. unlock_rc env h = 0" "phase (hist w) = Idle"
  shows "case resources_of (hist (snd (bridge_main env argv w))) of s \<Rightarrow>
     open_fds s = open_fds (resources_of (hist w)) \<and> mapped s = mapped (resources_of (hist w)) \<and>
     faults s = faults (resources_of (hist w)) \<and>
     (cstr (argv ! 1) = ''init'' \<or> created_names s = created_names (resources_of (hist w))) \<and>
     phase (hist (snd (bridge_main env argv w))) = Idle"
proof -
  have u: "unlock_ok env" using assms(1) by (simp add: unlock_ok_def)
  let ?R = "run_command env argv w"
  have i: "snd ?R = snd (initialize_cache env w)" if "cstr (argv ! 1) = ''init''"
    using that by (simp add: run_command_def split_beta)
  have "open_fds (resources_of (hist (snd ?R))) = open_fds (resources_of (hist w)) \<and>
      mapped (resources_of (hist (snd ?R))) = mapped (resources_of (hist w)) \<and>
      faults (resources_of (hist (snd ?R))) = faults (resources_of (hist w)) \<and>
      (cstr (argv ! 1) = ''init'' \<or>
       created_names (resources_of (hist (snd ?R))) = created_names (resources_of (hist w)))"
  proof (cases "cstr (argv ! 1) = ''init''")
    case True
    show ?thesis
      unfolding i[OF True] using True
      by (subst (1 2 3) initialize_cache_resources) simp
  next
    case False
    with run_command_resources[OF this, of env w] show ?thesis by simp
  qed
  with phase_run_command[OF u assms(2), of argv] assms(2) show ?thesis
    by (simp add: bridge_main_def)
qed

theorem bridge_leaves_nothing_witness:
  "open_fds (resources_of (hist (snd (bridge_main (sample_os True 4194304 published_sample 104)
     [''bridge'', ''get'', ''k''] sample_world)))) = [] \<and>
   phase (hist (snd (bridge_main (sample_os True 4194304 published_sample 104)
     [''bridge'', ''get'', ''k''] sample_world))) = Idle"
  using bridge_leaves_nothing[of "sample_os True 4194304 published_sample 104" sample_world
      "[''bridge'', ''get'', ''k'']"]
  by (simp add: resources_of_def no_resources_def)

text \<open>
  The exit status of the bridge is 0, 1 or 2.  It is 2 only for a command line that is not
  understood (no command, an unknown one, a wrong number of arguments, or a key or value that
  does not fit), and for every such command line unless the cache cannot be opened.
\<close>

theorem bridge_exit_status:
  "fst (bridge_main env argv w) \<in> {0, 1, 2} \<and>
   (fst (bridge_main env argv w) = 2 \<longrightarrow> \<not> understood argv) \<and>
   (\<not> understood argv \<longrightarrow> fst (bridge_main env argv w) = 2 \<or>
      fst (bridge_main env argv w) = 1 \<and> \<not> fst (open_cache env w))"
proof (cases "2 \<le> length argv \<and> cstr (argv ! 1) \<noteq> ''init''")
  case True
  then have "fst (dispatch env argv v) \<in> {0, 1, 2} \<and>
      (fst (dispatch env argv v) = 2 \<longleftrightarrow> \<not> understood argv)" for v
    by (intro dispatch_status) simp_all
  with True show ?thesis by (auto simp: bridge_main_def run_command_def split_beta Let_def)
next
  case False
  then show ?thesis
    by (cases "2 \<le> length argv")
      (auto simp: bridge_main_def run_command_def understood_def split_beta Let_def)
qed

theorem bridge_exit_status_witness:
  "fst (bridge_main (sample_os True 4194304 published_sample 104) [''bridge''] sample_world) = 2 \<and>
   fst (bridge_main (sample_os True 4194304 published_sample 104) [''bridge'', ''put'', ''k'']
     sample_world) = 2"
proof -
  let ?e = "sample_os True 4194304 published_sample 104"
  have "fst (open_cache ?e sample_world)"
    using arg_cong[OF sample_os_attaches(1)[OF published_sample_valid, of 104 empty_mapping
        sample_world], of fst] by (simp add: open_cache_def)
  then show ?thesis
    using bridge_exit_status[of ?e "[''bridge'']" sample_world]
      bridge_exit_status[of ?e "[''bridge'', ''put'', ''k'']" sample_world]
    by (simp add: understood_def)
qed

text \<open>
  C28.  \<open>get\<close> exits with 0 and prints one JSON line: the value, escaped, and the timestamp of the
  key's item in the cache it opened, or that there is no live item.
\<close>

theorem bridge_get_prints:
  assumes "open_cache env w = (True, m, w1)" "table_wf (acquired_read env w1)"
    and "rdlock_rc env (hist w1) = 0" "key_fits key"
  shows "fst (bridge_main env [prog, ''get'', key] w) = 0 \<and>
     stdout_of (hist (snd (bridge_main env [prog, ''get'', key] w))) = stdout_of (hist w) @
       (case abs_map (acquired_read env w1) (cstr key) of
          Some it \<Rightarrow>
            if item_expired it (get_time env w1) then ''{\"found\":false}'' @ NL
            else ''{\"found\":true,\"value\":'' @ print_json_string (item_value it) @
                 '',\"timestamp\":'' @ decimal (unat (item_time it)) @ ''}'' @ NL
        | None \<Rightarrow> ''{\"found\":false}'' @ NL)"
proof -
  have v: "valid_key (Some key) w1 = (True, w1)"
    using assms(4) by (auto simp: valid_key_def key_fits_def cstr_empty_iff)
  have d: "dispatch env [prog, ''get'', key] w1 = get_command env key w1"
    by (simp add: dispatch_def check_if_def v)
  obtain result w2 where r: "get_command env key w1 = (result, w2)" by fastforce
  have "stdout_of (hist w1) = stdout_of (hist w)"
    by (rule stdout_open_cache[OF assms(1)])
  moreover note run_command_opened[OF assms(1), of "[prog, ''get'', key]" result w2]
  ultimately show ?thesis using get_command_spec[OF assms(2,4,3)] d r by simp
qed

theorem bridge_get_prints_witness:
  "stdout_of (hist (snd (bridge_main (sample_os True 4194304 published_sample 104)
     [''bridge'', ''get'', ''k''] sample_world))) =
   ''{\"found\":true,\"value\":'' @ print_json_string ''v'' @ '',\"timestamp\":'' @ decimal 100 @
     ''}'' @ NL"
  using bridge_get_prints[OF sample_os_attaches(1)[OF published_sample_valid, of 104 empty_mapping
        sample_world, folded open_cache_def], of "''k''" "''bridge''"]
  by (simp add: sample_os_attaches(2)[OF published_sample_valid] item_expired_def get_time_def
      open_cache_def)

text \<open>
  C29.  \<open>put\<close> with a time to live stores the key for that many seconds exactly when the text is
  accepted; otherwise it exits with 1, prints nothing and leaves the region alone.  Every decimal
  numeral up to the largest 32-bit number is accepted at its value and every larger one refused.
\<close>

theorem bridge_put_stores:
  assumes "open_cache env w = (True, m, w1)" "table_wf (acquired_write env w1)"
    and "wrlock_rc env (hist w1) = 0" "key_fits key" "value_fits val"
  shows "parse_ttl (decimal n) = (if n \<le> 4294967295 then Some (of_nat n) else None) \<and>
     (case parse_ttl ttl_text of
        None \<Rightarrow> fst (bridge_main env [prog, ''put'', key, val, ttl_text] w) = 1 \<and>
          stdout_of (hist (snd (bridge_main env [prog, ''put'', key, val, ttl_text] w)))
            = stdout_of (hist w) \<and>
          mem (snd (bridge_main env [prog, ''put'', key, val, ttl_text] w)) = mem w1
      | Some ttl \<Rightarrow> fst (bridge_main env [prog, ''put'', key, val, ttl_text] w) = 0 \<and>
          stdout_of (hist (snd (bridge_main env [prog, ''put'', key, val, ttl_text] w)))
            = stdout_of (hist w) @ ''{\"ok\":true}'' @ NL \<and>
          (\<exists>map. room_made (reclaim_time env w1) (acquired_write env w1) (cstr key) map \<and>
             abs_map (mem (snd (bridge_main env [prog, ''put'', key, val, ttl_text] w))) =
               map(cstr key \<mapsto> \<lparr>item_value = cstr val, item_time = put_time env key w1,
                                 item_ttl = ttl\<rparr>)))"
proof -
  let ?argv = "[prog, ''put'', key, val, ttl_text]"
  have v: "valid_key_and_value (Some key) (Some val) w1 = (True, w1)"
    using assms(4,5) by (auto simp: valid_key_and_value_def valid_key_def valid_value_def
        key_fits_def value_fits_def cstr_empty_iff)
  have n: "?argv ! 2 = key" "?argv ! 3 = val" "?argv ! 4 = ttl_text" by (simp_all add: numeral_eq_Suc)
  have d: "dispatch env ?argv w1 = put_command env key val (Some ttl_text) w1"
    unfolding dispatch_def Let_def n by (simp add: check_if_def v)
  obtain result w2 where r: "put_command env key val (Some ttl_text) w1 = (result, w2)" by fastforce
  have "stdout_of (hist w1) = stdout_of (hist w)"
    by (rule stdout_open_cache[OF assms(1)])
  moreover note run_command_opened[OF assms(1), of ?argv result w2]
  moreover note put_command_spec[OF assms(2,4,5,3), of "Some ttl_text"]
  ultimately show ?thesis
    using d r parse_ttl_decimal[of n]
    by (cases "parse_ttl ttl_text") (auto simp: put_result_def)
qed

theorem bridge_put_stores_witness:
  "fst (bridge_main (sample_os True 4194304 published_sample 104)
     [''bridge'', ''put'', ''k'', ''u'', decimal 60] sample_world) = 0 \<and>
   fst (bridge_main (sample_os True 4194304 published_sample 104)
     [''bridge'', ''put'', ''k'', ''u'', decimal 4294967296] sample_world) = 1"
proof -
  note o = sample_os_attaches(1)[OF published_sample_valid, of 104 empty_mapping sample_world,
      folded open_cache_def]
  note m = sample_os_attaches(2)[OF published_sample_valid, of 104 empty_mapping sample_world,
      folded open_cache_def]
  have wf: "table_wf (acquired_write (sample_os True 4194304 published_sample 104)
      (snd (snd (open_cache (sample_os True 4194304 published_sample 104) sample_world))))"
    by (simp add: m)
  from bridge_put_stores[OF o wf, where key = "''k''" and val = "''u''" and n = 60
      and ttl_text = "decimal 60" and prog = "''bridge''"]
    bridge_put_stores[OF o wf, where key = "''k''" and val = "''u''" and n = 4294967296
      and ttl_text = "decimal 4294967296" and prog = "''bridge''"]
  show ?thesis by (simp add: parse_ttl_decimal)
qed



text \<open>
  C31.  A JSON reader gets back exactly the string that \<open>print_json_string\<close> was given, up to its
  terminator, and the text that follows; and no control character is printed raw.
\<close>

theorem json_string_roundtrip:
  "json_read (print_json_string s @ rest) = Some (cstr s, rest) \<and>
   list_all (\<lambda>c. 32 \<le> (of_char c :: nat)) (print_json_string s)"
  using json_read_print[of s rest] json_char_printable
  by (auto simp: print_json_string_def list_all_iff)

text \<open>
  C32.  What the time to live argument accepts, exactly: the empty text, read as 0, and a decimal
  number below two to the 64 after optional white space and an optional sign, whose value,
  negated modulo two to the 64 under a minus sign, is at most the largest 32-bit number.  So the
  number \<open>-18446744073709551615\<close> is accepted as 1 second.
\<close>

theorem ttl_argument_accepts:
  "(parse_ttl s = Some t \<longleftrightarrow>
      cstr s = [] \<and> t = 0 \<or>
      (\<exists>neg n. signed_number (cstr s) neg n \<and> n < 2 ^ 64 \<and> signed_word neg n \<le> 4294967295 \<and>
         t = ucast (signed_word neg n))) \<and>
   parse_ttl '''' = Some 0 \<and> parse_ttl '' +7'' = Some 7 \<and>
   parse_ttl ''-18446744073709551615'' = Some 1"
proof -
  have neg: "signed_number ''-18446744073709551615'' True 18446744073709551615"
    unfolding signed_number_def
    by (intro exI[of _ "''''"] exI[of _ "''-''"] exI[of _ "''18446744073709551615''"])
      (simp add: is_digit_def number_def digit_value_def)
  have pos: "signed_number '' +7'' False 7"
    unfolding signed_number_def
    by (intro exI[of _ "'' ''"] exI[of _ "''+''"] exI[of _ "''7''"])
      (simp add: is_digit_def is_space_def number_def digit_value_def)
  have "(- 18446744073709551615 :: u64) = 1" by simp
  then have "parse_ttl ''-18446744073709551615'' = Some 1"
    unfolding parse_ttl_iff using neg
    by (intro disjI2 exI[of _ True] exI[of _ 18446744073709551615])
      (simp add: signed_word_def UINT32_MAX_def)
  moreover have "parse_ttl '' +7'' = Some 7"
    unfolding parse_ttl_iff using pos
    by (intro disjI2 exI[of _ False] exI[of _ 7]) (simp add: signed_word_def UINT32_MAX_def)
  moreover have "parse_ttl '''' = Some 0" by (simp add: parse_ttl_iff)
  ultimately show ?thesis using parse_ttl_iff[of s t] by (simp add: UINT32_MAX_def)
qed

section \<open>The benchmark\<close>

text \<open>
  A CSV reader gets back exactly the string that \<open>csv_quote\<close> was given, when the field is
  followed by the end of the line or anything but a quote.
\<close>

theorem csv_roundtrip:
  assumes "rest = [] \<or> hd rest \<noteq> CHR 0x22"
  shows "csv_read (csv_quote s @ rest) = Some (s, rest)"
  using assms by (rule csv_read_quote)

theorem csv_roundtrip_witness:
  "csv_read (csv_quote [CHR ''a'', CHR 0x22, CHR ''b''] @ '',1'')
     = Some ([CHR ''a'', CHR 0x22, CHR ''b''], '',1'')"
  using csv_roundtrip[of "'',1''" "[CHR ''a'', CHR 0x22, CHR ''b'']"] by simp

text \<open>
  C34.  However the operating system cuts a message into partial reads and writes and however
  often it interrupts, \<open>transfer_all\<close> succeeds exactly when the whole message gets through; then
  the bytes on the wire, and the bytes read at the other end, are the message, in order and
  complete.
\<close>

theorem message_arrives_whole:
  "case transfer_all True msg [] script of (sent, _, wire) \<Rightarrow>
     (sent \<longleftrightarrow> completes (length msg) script) \<and>
     (sent \<longrightarrow> wire = msg \<and>
       (case transfer_all False (replicate (length msg) NUL) (wire @ rest) script' of
          (received, buf, wire') \<Rightarrow>
            (received \<longleftrightarrow> completes (length msg) script') \<and>
            (received \<longrightarrow> buf = msg \<and> wire' = rest)))"
proof -
  obtain sent d wire where s: "transfer_all True msg [] script = (sent, d, wire)"
    by (metis prod_cases3)
  obtain received buf wire' where
    r: "transfer_all False (replicate (length msg) NUL) (msg @ rest) script' = (received, buf, wire')"
    by (metis prod_cases3)
  have "sent \<longleftrightarrow> completes (length msg) script" "sent \<Longrightarrow> wire = msg"
    using transfer_loop_send[of 0 msg "[]" script sent d wire] s by (auto simp: transfer_all_def)
  moreover have "received \<longleftrightarrow> completes (length msg) script'"
    "received \<Longrightarrow> buf = msg \<and> wire' = rest"
    using transfer_loop_receive[of 0 "replicate (length msg) NUL" "msg @ rest" script' received buf wire'] r
    by (auto simp: transfer_all_def)
  ultimately show ?thesis using s r by simp
qed

theorem message_arrives_whole_witness:
  "transfer_all True ''abcd'' [] [Moved 1, Interrupted, Moved 9] = (True, ''abcd'', ''abcd'') \<and>
   completes 4 [Moved 1, Interrupted, Moved 9]"
  using message_arrives_whole[where msg = "''abcd''" and script = "[Moved 1, Interrupted, Moved 9]"
      and script' = "[]" and rest = "[]"]
  by (simp add: transfer_all_def)

lemma greatest_trials: "(4294967295 :: u32) = - 1"
  by code_simp

lemma parse_greatest: "parse_positive ''4294967295'' = Some (- 1)"
proof -
  have "''4294967295'' = decimal 4294967295"
    by (simp add: decimal.simps digit_char_def char_of_def bit_iff_odd)
  moreover have "\<not> UINT32_MAX < (4294967295 :: u64)" by (simp add: UINT32_MAX_def)
  ultimately show ?thesis by (simp add: parse_positive_def strtoul_decimal greatest_trials)
qed

text \<open>
  C33.  The benchmark on a machine where the shared memory object can be created, used and removed
  by it alone and the sockets of the baseline work: it prints the header line and one line for each
  payload size, workload, number of threads, trial and implementation, in the order of its loops,
  no measurement reports a failure, whatever the schedule and the clock, and it ends with status 0;
  except with the greatest 32-bit number of trials, with which it never ends.
\<close>

theorem benchmark_rows:
  assumes "parse_args (tl argv) 2000 3 = Inr (ops, trials)"
    and "machine_ok be cpu" "alone be" "locks_ok be" "unlink_works be"
    and "cache_open_shared be (Some empty_mapping) True (Some (resource_name be))
        (snd (unlink_resource be (cerr (banner be cpu ops trials) w))) = (True, Some m, w1)"
    and "map_created m"
  shows "if trials = 4294967295 then benchmark_main be argv w = None
    else \<exists>w' ms. benchmark_main be argv w = Some (Inr (0, w')) \<and>
      length ms = 48 * unat trials \<and> (\<forall>m\<in>set ms. failures m = 0) \<and>
      stdout_of (hist w') = stdout_of (hist w) @ csv_header @
        concat (map2 (csv_row be cpu ops) (all_configs trials) ms)"
proof (cases "trials = - 1")
  case True
  with benchmark_main_endless[OF assms(1)[unfolded True] assms(2) assms(6)[unfolded True]]
  show ?thesis using True by (simp only: greatest_trials if_True)
next
  case False
  then have "trials \<noteq> 4294967295" by (simp only: greatest_trials not_False_eq_True)
  with benchmark_main_done[OF assms(1) False assms(2-7)] show ?thesis by (simp only: if_False)
qed

definition sample_sockets :: sock_env where
  "sample_sockets = \<lparr>socketpair_r = \<lambda>h. Some (5, 6), thread_r = \<lambda>h. None,
     quit_write = \<lambda>h. [Moved 321], quit_read = \<lambda>h. [Moved 321]\<rparr>"

definition sample_bench :: bench_env where
  "sample_bench = os_env.extend
     ((sample_os False 0 sample_region 9)\<lparr>shm_unlink_r := \<lambda>h nm. (0, False)\<rparr>)
     \<lparr>pid = 7, uname_r = None, cpuinfo = [], compiler = ''12.2.0'', build_type = ''Release'',
      sockets_r = \<lambda>n. sample_sockets, schedule_r = \<lambda>n. [(0, 0), (1, 0)], elapsed_r = \<lambda>n x. 2, whole_r = \<lambda>n. 5,
      links_r = \<lambda>n i. \<lparr>client_write = [Moved 321], server_read = [Moved 321],
        server_write = [Moved 260], client_read = [Moved 260]\<rparr>\<rparr>"

lemma sample_bench_ok:
  "alone sample_bench" "locks_ok sample_bench" "unlink_works sample_bench"
  "\<exists>cpu. machine_ok sample_bench cpu"
  by (simp_all add: alone_def locks_ok_def unlink_works_def machine_ok_def sample_bench_def
      os_env.extend_def sample_os_def link_ok_def
      sockets_work_def sample_sockets_def)

lemma sample_bench_creates:
  "\<exists>m w1. cache_open_shared sample_bench (Some empty_mapping) True (Some nm) w = (True, Some m, w1) \<and>
    map_created m"
  using default_capacity_ok(1)
  by (simp add: cache_open_shared_def open_object_def size_object_def adopt_region_def
      cache_initialize_region_def cache_init_lock_def empty_mapping_def Let_def sample_bench_def
      os_env.extend_def sample_os_def)

theorem benchmark_rows_witness:
  "benchmark_main sample_bench [''bench'', ''--trials'', ''4294967295''] sample_world = None \<and>
   (\<exists>w'. benchmark_main sample_bench [''bench''] sample_world = Some (Inr (0, w')))"
proof -
  obtain cpu where cpu: "machine_ok sample_bench cpu" using sample_bench_ok(4) ..
  define v where "v = cerr (banner sample_bench cpu 2000 (- 1)) sample_world"
  obtain m w1 where o: "cache_open_shared sample_bench (Some empty_mapping) True
      (Some (resource_name sample_bench)) (snd (unlink_resource sample_bench v)) = (True, Some m, w1)"
    "map_created m" using sample_bench_creates by blast
  define v' where "v' = cerr (banner sample_bench cpu 2000 3) sample_world"
  obtain m' w1' where o': "cache_open_shared sample_bench (Some empty_mapping) True
      (Some (resource_name sample_bench)) (snd (unlink_resource sample_bench v')) = (True, Some m', w1')"
    "map_created m'" using sample_bench_creates by blast
  have a: "parse_args (tl [''bench'', ''--trials'', ''4294967295'']) 2000 3 = Inr (2000, - 1)"
    by (simp add: parse_greatest strcmp_eq_def)
  have a': "parse_args (tl [''bench'']) 2000 3 = Inr (2000, 3)" by simp
  have n: "(- 1 :: u32) = 4294967295" "(3 :: u32) \<noteq> 4294967295" by (simp_all add: greatest_trials)
  from benchmark_rows[OF a cpu sample_bench_ok(1-3) o[unfolded v_def]]
    benchmark_rows[OF a' cpu sample_bench_ok(1-3) o'[unfolded v'_def]]
  show ?thesis unfolding if_P[OF n(1)] if_not_P[OF n(2)] by blast
qed

text \<open>
  The two implementations answer the benchmark alike: on every workload, with any number of
  workers and operations, in whatever order the workers' operations take effect, and whatever the
  clock measures, a run on the shared cache (with no other process, a working lock and room for
  the benchmark's three keys) and a run on the socket server (over links whose transfers
  complete) report no failure, the same number of operations, and one latency for each operation.
\<close>

theorem benchmark_reports_no_failure:
  assumes "shared_ok s" "socket_ok s'" "value_fits payload"
    and "\<forall>x\<in>set schedule. fst x < unat tc" "\<forall>x\<in>set schedule'. fst x < unat tc"
  shows "(case run_measurement shared_prepare shared_perform workload payload tc n schedule elapsed whole s
       of (m, _) \<Rightarrow> failures m = 0 \<and> operations m = ucast tc * ucast n \<and>
         length (latency_us m) = length schedule) \<and>
     (case run_measurement socket_prepare socket_perform workload payload tc n schedule' elapsed whole s'
       of (m, _) \<Rightarrow> failures m = 0 \<and> operations m = ucast tc * ucast n \<and>
         length (latency_us m) = length schedule')"
  using shared.run_measurement_correct[OF assms(1,3), where tc = tc and schedule = schedule and workload = workload
        and n = n and elapsed = elapsed and whole = whole]
    socket.run_measurement_correct[OF assms(2,3), where tc = tc and schedule = schedule' and workload = workload
        and n = n and elapsed = elapsed and whole = whole]
    length_worker_latencies[of schedule "replicate (unat tc) []" elapsed]
    length_worker_latencies[of schedule' "replicate (unat tc) []" elapsed] assms(4,5)
  by (simp_all add: split_beta)

theorem benchmark_reports_no_failure_witness:
  "failures (fst (run_measurement shared_prepare shared_perform ''mixed'' ''v'' 4 2000 [(0, 0), (1, 0)]
       (\<lambda>x. 1) 5 (sole_env 9, sample_world))) = 0"
proof -
  let ?l = "\<lparr>client_write = [Moved 321], server_read = [Moved 321], server_write = [Moved 260],
    client_read = [Moved 260]\<rparr>"
  have "shared_ok (sole_env 9, sample_world)" by (simp add: shared_ok_def)
  moreover have "socket_ok (\<lambda>i. ?l, 0, \<lambda>k. None)" by (simp add: socket_ok_def link_ok_def)
  ultimately show ?thesis
    using benchmark_reports_no_failure[where s = "(sole_env 9, sample_world)"
        and s' = "(\<lambda>i. ?l, 0, \<lambda>k. None)" and payload = "''v''" and schedule = "[(0, 0), (1, 0)]"
        and tc = 4 and schedule' = "[]" and workload = "''mixed''" and n = 2000
        and elapsed = "\<lambda>x. 1" and whole = 5]
    by (simp add: split_beta)
qed

text \<open>
  C38.  The percentiles of the report are exact nearest-rank percentiles, although their rank is
  computed in double precision: of fewer than 2^40 latencies, the \<open>k\<close>-th smallest, where \<open>k\<close> is
  the least number that makes up at least 50, 95 or 99 percent of them.
\<close>

theorem percentiles_are_exact:
  assumes "vals \<noteq> []" "length vals < 2 ^ 40"
    and "(p, c) \<in> {(50, round53 (1 / 2)), (95, round53 (95 / 100)), (99, round53 (99 / 100))}"
  shows "\<exists>k. percentile vals c = sort vals ! (k - 1) \<and> 0 < k \<and> k \<le> length vals \<and>
    p * length vals \<le> 100 * k \<and> 100 * (k - 1) < p * length vals"
  using percentile_spec[OF _ assms(1,2)] percents_ok assms(3) by auto

theorem percentiles_are_exact_witness: "percentile [3, 1, 2] (round53 (1 / 2)) = 2"
proof -
  have "\<exists>k. percentile [3, 1, 2] (round53 (1 / 2)) = sort [3, 1, 2] ! (k - 1) \<and> 0 < k \<and>
      k \<le> length [3, 1, 2 :: rat] \<and> 50 * length [3, 1, 2 :: rat] \<le> 100 * k \<and>
      100 * (k - 1) < 50 * length [3, 1, 2 :: rat]"
    by (rule percentiles_are_exact) simp_all
  then obtain k where k: "percentile [3, 1, 2] (round53 (1 / 2)) = sort [3, 1, 2] ! (k - 1)"
    "150 \<le> 100 * k" "100 * (k - 1) < 150" by auto
  then have "k = 2" by linarith
  with k(1) show ?thesis by simp
qed

text \<open>
  C37.  The sockets and threads of the baseline are given back.  The constructor returns or throws;
  when it throws, no thread is left, and no descriptor but, when it was a thread that could not be
  started, the server's end of that last socket pair, which is leaked; when it returns, there are as
  many clients and servers as were asked for, and the destructor always returns, whether or not its
  closing messages get through, with every descriptor closed and every thread joined.
\<close>

theorem sockets_given_back:
  "case construct env n [] of
     None \<Rightarrow> False
   | Some (Inl what, h) \<Rightarrow>
       running_threads h = {#} \<and> open_sockets h = orphans h \<and> size (orphans h) \<le> 1
   | Some (Inr c, h) \<Rightarrow>
       length (clients c) = unat n \<and> length (servers c) = unat n \<and>
       open_sockets h = mset (clients c) + mset (servers c) \<and> running_threads h = mset (servers c) \<and>
       (case shutdown_clients env c h of
          None \<Rightarrow> False
        | Some (c', h') \<Rightarrow> open_sockets h' = {#} \<and> running_threads h' = {#})"
proof (cases rule: construct_cases[of env n])
  case (thrown what h)
  then show ?thesis by simp
next
  case (made c h)
  then obtain h' where "shutdown_clients env c h = Some (\<lparr>clients = [], servers = []\<rparr>, h')"
    "open_sockets h' = open_sockets h - mset (clients c) - mset (servers c)"
    "running_threads h' = running_threads h - mset (servers c)"
    using shutdown_clients_effect[of c env h] by auto
  with made show ?thesis by simp
qed

text \<open>
  C35.  The measured time covers exactly the measured operations: when a run of the benchmark has
  ended, its clock was read once before and once after all operations, every worker has done its
  operations in order and completely, and at no time was an operation done before all workers were
  ready and the clock had been read, whatever the interleaving and the spurious wake-ups.
\<close>

theorem clock_covers_operations:
  assumes "can_be tc n s"
  shows "(main_at s = Ended \<longrightarrow>
      rev (log_of s) = Begin # map (\<lambda>(w, k). Operation w k) (schedule_of (log_of s)) @ [End] \<and>
      (\<forall>w. map snd (filter (\<lambda>x. fst x = w) (schedule_of (log_of s)))
             = (if w < unat tc then [0..<unat n] else [])) \<and>
      length (schedule_of (log_of s)) = unat tc * unat n) \<and>
    (\<forall>w k. Operation w k \<in> set (log_of s) \<longrightarrow> ready_count s = tc \<and> Begin \<in> set (log_of s))"
  using ended_log[OF assms] ended_schedule(2)[OF assms] operation_after_ready[OF assms] by blast

theorem clock_covers_operations_witness:
  "\<exists>s. can_be 2 3 s \<and> main_at s = Ended \<and> length (schedule_of (log_of s)) = 6"
proof -
  obtain s where "(advance 2 3)\<^sup>*\<^sup>* at_first s" and e: "main_at s = Ended"
    using some_end[OF can_be.first, of 2 3] by (auto simp: at_first_def)
  then have r: "can_be 2 3 s" by (intro advance_can_be[OF _ can_be.first])
  from clock_covers_operations[OF r] e r show ?thesis by auto
qed

text \<open>
  C36.  A run of the benchmark ends: no wake-up is lost and no thread waits for ever.  From every
  state a run can be in, unless a thread could not be started, only finitely many steps are possible
  other than spurious wake-ups, however the threads are scheduled, and when none is possible any
  more, the main thread has joined all workers and read the clock.
\<close>

theorem threads_come_to_end:
  assumes "can_be tc n s" "\<And>i. main_at s \<noteq> Throwing i"
  shows "(\<forall>m s'. (advance tc n ^^ m) s s' \<longrightarrow> m \<le> rank_of tc n s) \<and>
    (\<forall>s'. (advance tc n)\<^sup>*\<^sup>* s s' \<and> (\<forall>t. \<not> advance tc n s' t) \<longrightarrow> main_at s' = Ended)"
proof (intro conjI allI impI)
  show "m \<le> rank_of tc n s" if "(advance tc n ^^ m) s s'" for m s'
    using advance_bounded[OF that can_be_inv[OF assms(1)]] by simp
  show "main_at s' = Ended" if "(advance tc n)\<^sup>*\<^sup>* s s' \<and> (\<forall>t. \<not> advance tc n s' t)" for s'
    using barrier_stuck[of tc n s s'] that assms by blast
qed

theorem threads_come_to_end_witness: "\<nexists>s'. (advance 4 2000 ^^ 9000) at_first s'"
proof
  assume "\<exists>s'. (advance 4 2000 ^^ 9000) at_first s'"
  then obtain s' where m: "(advance 4 2000 ^^ 9000) at_first s'" ..
  have "\<And>i. main_at at_first \<noteq> Throwing i" by (simp add: at_first_def)
  from threads_come_to_end[OF can_be.first this, of 4 2000] m have "9000 \<le> rank_of 4 2000 at_first" by blast
  then show False by (simp add: rank_of_def at_first_def)
qed

section \<open>The semaphore prototype\<close>

text \<open>
  C39.  A \<open>SharedMemoryManager\<close> that is constructed, made server or client, and destroyed has
  given back every descriptor, mapping and semaphore it took, whichever call failed; and a failed
  initialisation has given them back by itself.
\<close>

theorem manager_gives_back:
  assumes "held_after s0 h = s" "init \<in> {init_as_server env, attach_as_client env}"
  shows "case init (new_manager shm_n sem_n sz) h of (ok, m, h') \<Rightarrow>
     held_after s0 (snd (cleanup m h')) = s \<and> (\<not> ok \<longrightarrow> held_after s0 h' = s)"
proof -
  let ?m = "new_manager shm_n sem_n sz"
  have h: "held_after s0 h = manages ?m s" using assms(1) by (simp add: manages_def new_manager_def)
  obtain ok m h' where r: "init ?m h = (ok, m, h')" by (metis prod_cases3)
  from assms(2) have "held_after s0 h' = manages m s \<and> (\<not> ok \<longrightarrow> manages m s = s)"
    using init_as_server_holdings[OF h, of env] attach_as_client_holdings[OF h, of env] r
    by (auto simp: new_manager_def)
  with cleanup_holdings show ?thesis by (auto simp: r)
qed

theorem manager_gives_back_witness:
  "case init_as_server failing_sem (new_manager ''/s'' ''/l'' 4096) [] of (ok, m, h') \<Rightarrow>
     held_after \<lparr>fds = [], maps = [], sems = []\<rparr> (snd (cleanup m h'))
       = \<lparr>fds = [], maps = [], sems = []\<rparr>"
  using manager_gives_back[of "\<lparr>fds = [], maps = [], sems = []\<rparr>" "[]"
      "\<lparr>fds = [], maps = [], sems = []\<rparr>" "init_as_server failing_sem" failing_sem "''/s''" "''/l''" 4096]
  by (simp add: split_beta)

text \<open>
  C40.  \<open>lock\<close> returns exactly when there is no semaphore or some wait is not interrupted; the
  first such wait decides its result.
\<close>

theorem lock_returns:
  "((\<exists>r. sem_lock env m h = Some r) \<longleftrightarrow>
      semaphore m = None \<or> (\<exists>n. sem_wait_r env (interrupted n h) \<noteq> (- 1, True))) \<and>
   (semaphore m \<noteq> None \<and> (\<forall>i<n. sem_wait_r env (interrupted i h) = (- 1, True)) \<and>
      sem_wait_r env (interrupted n h) = (rc, intr) \<and> (rc, intr) \<noteq> (- 1, True) \<longrightarrow>
      sem_lock env m h = Some (rc \<noteq> - 1, Sem_wait rc # interrupted n h))"
  using wait_loop_returns[of n env h rc intr] wait_loop_iff[of env h] by (auto simp: sem_lock_def)

theorem lock_returns_witness:
  "sem_lock (failing_sem\<lparr>sem_wait_r := (\<lambda>h. if length h < 2 then (- 1, True) else (0, False))\<rparr>)
     ((new_manager ''/s'' ''/l'' 4096)\<lparr>semaphore := Some 7\<rparr>) []
   = Some (True, [Sem_wait 0, Sem_wait (- 1), Sem_wait (- 1)])"
  using lock_returns[where env = "failing_sem\<lparr>sem_wait_r :=
        (\<lambda>h. if length h < 2 then (- 1, True) else (0, False))\<rparr>"
      and m = "(new_manager ''/s'' ''/l'' 4096)\<lparr>semaphore := Some 7\<rparr>" and h = "[]" and n = 2
      and rc = 0 and intr = False]
  by (simp add: interrupted_def numeral_2_eq_2)

section \<open>The programs\<close>

text \<open>
  C27.  The writer and the reader work together: a writer that creates the cache exits with 0 and
  leaves its three pairs and nothing else in it, and a reader that attaches to that region exits
  with 0 and prints five ticks, each with the three values that were written and their times,
  and a report that counts three more hits, no miss and three entries.
\<close>

theorem reader_sees_writer:
  assumes "alone we" "locks_ok we"
    and "cache_open_shared we (Some empty_mapping) True None w = (True, Some m, w1)" "map_created m"
    and "alone re" "locks_ok re"
    and "cache_open_shared re (Some empty_mapping) False None v = (True, m', v1)"
    and "\<And>h b q. mmap_r re h = Some (b, q) \<Longrightarrow> q = mem (snd (writer_main we w))"
    and "MAX_VAL_LEN \<le> length buf"
  shows "fst (writer_main we w) = 0 \<and>
     dom (abs_map (mem (snd (writer_main we w)))) = fst ` set demo_pairs \<and>
     list_all (holds_pair (mem (snd (writer_main we w)))) demo_pairs \<and>
     fst (reader_main re buf v) = 0 \<and>
     (\<exists>hs. length hs = 5 \<and>
        (\<forall>i<5. report_of (mem (snd (writer_main we w))) (3 * (i + 1)) (hs ! i)) \<and>
        stdout_of (hist (snd (reader_main re buf v))) = stdout_of (hist v) @
          ''[Reader] Polling shared memory using the process-shared reader-writer lock...'' @ NL @
          concat (map (tick_text (mem (snd (writer_main we w))) demo_pairs) (zip [0..<5] hs)) @
          ''[Reader] Done.'' @ NL)"
proof -
  note fills = writer_main_fills[OF assms(1-4)]
  note prints = reader_main_prints[OF assms(5-8) fills(2,4) assms(9)]
  show ?thesis
    by (intro conjI fills(1,4,5) prints[THEN conjunct1] prints[THEN conjunct2])
qed

theorem reader_sees_writer_witness:
  "fst (reader_main
     (sample_os True 4194304 (mem (snd (writer_main (sample_os False 0 sample_region 9) sample_world))) 10)
     (replicate MAX_VAL_LEN NUL) sample_world) = 0"
proof -
  let ?we = "sample_os False 0 sample_region 9"
  let ?r = "mem (snd (writer_main ?we sample_world))"
  let ?re = "sample_os True 4194304 ?r 10"
  note o = sample_os_creates[of 0 sample_region 9 empty_mapping sample_world]
  note fills = writer_main_fills[OF sample_os_alone(1,2) o, simplified]
  have "cache_validate_layout (Some ?r) CACHE_SHARED_MEMORY_SIZE"
    using fresh_region_valid[OF default_capacity_ok(1)] identity_validates[OF fills(3)] by simp
  moreover have "entry_count (hdr ?r) \<le> capacity (hdr ?r)"
    using wf_entry_count[OF fills(2)] by (simp add: word_le_nat_alt)
  ultimately have a: "cache_open_shared ?re (Some empty_mapping) False None sample_world =
     (True, Some \<lparr>map_fd = 3, map_base = Some 4096, map_size = CACHE_SHARED_MEMORY_SIZE, map_created = False\<rparr>,
      snd (snd (cache_open_shared ?re (Some empty_mapping) False None sample_world)))"
    by (rule sample_os_attaches(1))
  have mm: "q = ?r" if "mmap_r ?re h = Some (b, q)" for h b q using that by simp
  have len: "MAX_VAL_LEN \<le> length (replicate MAX_VAL_LEN NUL)" by simp
  from reader_sees_writer[OF sample_os_alone(1,2) o _ sample_os_alone(1,2) a mm len]
  show ?thesis by simp
qed



section \<open>Many processes\<close>



text \<open>
  C5.  The operations of any number of processes are linearizable.  Whatever the interleaving of
  their sections, the answers of all operations, in the order of the steps that decide them, each
  between its request and its end, are those of one abstract cache that does one operation after
  the other: a map of at most as many keys as the table has slots, in which PUT makes room as
  specified, GET finds what is there and not expired, UPDATE and DELETE change their key only, and
  an item vanishes only when it is expired at a time the clock showed.  When no writer is inside,
  the memory holds that map.
\<close>

theorem processes_linearizable:
  assumes "run r0 s l" "table_wf r0"
  shows "abstract_history (cap r0) (abs_map r0) l (abs_map (in_turn (completed s) r0)) \<and>
    (\<not> lock_writer s \<longrightarrow> shared_mem s = in_turn (completed s) r0)"
  using run_linear[OF assms] reachable_inv[OF run_reachable[OF assms(1)]]
  by (simp add: table_now_def data_inv_def)

theorem processes_linearizable_witness:
  "abstract_history 3 (abs_map (mem one_entry)) [Answer 1 (Put (Some ''a'') (Some ''x'') 0) (Ok True) {9}]
     (abs_map (shared_mem (put_done (mem one_entry))))"
proof -
  have k: "key_fits ''a''" "value_fits ''x''"
    by (simp_all add: key_fits_def value_fits_def strlen_def MAX_KEY_LEN_def MAX_VAL_LEN_def)
  have "fst (cache_put_ttl (sole_env 9) Mapped_base (Some ''a'') (Some ''x'') 0 (fresh (mem one_entry)))"
    using sole_put[of "fresh (mem one_entry)" "''a''" "''x''" 9 0] k by (simp add: full_for_def)
  with processes_linearizable[OF put_done_run, of "mem one_entry"] show ?thesis
    by (simp add: put_done_def start_def)
qed



end
